theory Spec2Isabelle
  imports Complex_Main "HOL-Library.Word"
begin

unbundle bit_operations_syntax

section \<open>JavaScript values\<close>

subsection \<open>Numbers\<close>

text \<open>
  A JavaScript number is modelled as an exact real number, one of the two infinities, or
  \<^verbatim>\<open>NaN\<close>. Rounding to binary floating point (and to 32 bits inside a
  \<^verbatim>\<open>Float32Array\<close>) and the sign of zero are not modelled: arithmetic is exact.
\<close>

datatype jsnum = NaN | PInf | NInf | Fin real

fun js_neg :: "jsnum \<Rightarrow> jsnum" where
  "js_neg NaN = NaN"
| "js_neg PInf = NInf"
| "js_neg NInf = PInf"
| "js_neg (Fin a) = Fin (- a)"

fun js_add :: "jsnum \<Rightarrow> jsnum \<Rightarrow> jsnum" where
  "js_add (Fin a) (Fin b) = Fin (a + b)"
| "js_add NaN _ = NaN"
| "js_add _ NaN = NaN"
| "js_add PInf NInf = NaN"
| "js_add NInf PInf = NaN"
| "js_add PInf _ = PInf"
| "js_add NInf _ = NInf"
| "js_add _ PInf = PInf"
| "js_add _ NInf = NInf"

definition js_sub :: "jsnum \<Rightarrow> jsnum \<Rightarrow> jsnum" where
  "js_sub a b = js_add a (js_neg b)"

text \<open>The sign of a number that is not \<^verbatim>\<open>NaN\<close>: \<open>-1\<close>, \<open>0\<close> or \<open>1\<close>.\<close>

fun js_sign :: "jsnum \<Rightarrow> int" where
  "js_sign NaN = 0"
| "js_sign PInf = 1"
| "js_sign NInf = - 1"
| "js_sign (Fin a) = (if a < 0 then - 1 else if a = 0 then 0 else 1)"

definition js_inf :: "int \<Rightarrow> jsnum" where
  "js_inf sg = (if sg < 0 then NInf else PInf)"

fun js_mul :: "jsnum \<Rightarrow> jsnum \<Rightarrow> jsnum" where
  "js_mul (Fin a) (Fin b) = Fin (a * b)"
| "js_mul NaN _ = NaN"
| "js_mul _ NaN = NaN"
| "js_mul a b = (if js_sign a * js_sign b = 0 then NaN else js_inf (js_sign a * js_sign b))"

fun js_div :: "jsnum \<Rightarrow> jsnum \<Rightarrow> jsnum" where
  "js_div NaN _ = NaN"
| "js_div _ NaN = NaN"
| "js_div (Fin a) (Fin b) =
     (if b = 0 then (if a = 0 then NaN else js_inf (js_sign (Fin a))) else Fin (a / b))"
| "js_div (Fin a) _ = Fin 0"
| "js_div a (Fin b) = js_inf (js_sign a * (if b < 0 then - 1 else 1))"
| "js_div _ _ = NaN"

text \<open>\<^verbatim>\<open>Math.round\<close>: the nearest integer, ties towards \<open>+\<infinity>\<close>.\<close>

fun Math_round :: "jsnum \<Rightarrow> jsnum" where
  "Math_round (Fin a) = Fin (of_int \<lfloor>a + 1 / 2\<rfloor>)"
| "Math_round a = a"

text \<open>The relational operators; every comparison with \<^verbatim>\<open>NaN\<close> is false.\<close>

fun js_lt :: "jsnum \<Rightarrow> jsnum \<Rightarrow> bool" where
  "js_lt (Fin a) (Fin b) = (a < b)"
| "js_lt NaN _ = False"
| "js_lt _ NaN = False"
| "js_lt NInf b = (b \<noteq> NInf)"
| "js_lt a PInf = (a \<noteq> PInf)"
| "js_lt _ _ = False"

definition js_gt :: "jsnum \<Rightarrow> jsnum \<Rightarrow> bool" where
  "js_gt a b = js_lt b a"

text \<open>Strict equality \<^verbatim>\<open>===\<close> on numbers, and the truth value of a number.\<close>

definition js_eq :: "jsnum \<Rightarrow> jsnum \<Rightarrow> bool" where
  "js_eq a b \<longleftrightarrow> a = b \<and> a \<noteq> NaN"

definition js_truthy :: "jsnum \<Rightarrow> bool" where
  "js_truthy a \<longleftrightarrow> a \<noteq> NaN \<and> a \<noteq> Fin 0"

definition num :: "int \<Rightarrow> jsnum" where
  "num i = Fin (of_int i)"

text \<open>
  An array index is an integer from \<open>0\<close> to \<open>2\<^sup>3\<^sup>2 - 2\<close>; any other number used as a
  key names an ordinary property, which neither \<^verbatim>\<open>length\<close> nor \<^verbatim>\<open>map\<close> sees.
\<close>

definition array_index :: "jsnum \<Rightarrow> nat option" where
  "array_index k =
     (case k of
        Fin r \<Rightarrow> (if r = of_int \<lfloor>r\<rfloor> \<and> 0 \<le> r \<and> r < 4294967295 then Some (nat \<lfloor>r\<rfloor>) else None)
      | _ \<Rightarrow> None)"

text \<open>
  \<^verbatim>\<open>arr[k] = v\<close> on a sparse array, whose holes are \<open>None\<close>: the array grows to hold the
  index; a key that is no array index leaves the elements as they are.
\<close>

definition array_set :: "'a option list \<Rightarrow> jsnum \<Rightarrow> 'a \<Rightarrow> 'a option list" where
  "array_set xs k v =
     (case array_index k of
        None \<Rightarrow> xs
      | Some n \<Rightarrow> (if n < length xs then xs[n := Some v]
                   else xs @ replicate (n - length xs) None @ [Some v]))"

text \<open>Reading \<^verbatim>\<open>arr[i]\<close>: \<^verbatim>\<open>undefined\<close> beyond the end.\<close>

definition nth_opt :: "'a list \<Rightarrow> nat \<Rightarrow> 'a option" where
  "nth_opt xs i = (if i < length xs then Some (xs ! i) else None)"

subsection \<open>Strings\<close>

text \<open>
  Strings are lists of 8-bit characters. \<^verbatim>\<open>charAt\<close> yields the empty string beyond the
  end; \<^verbatim>\<open>slice\<close> counts negative positions from the end.
\<close>

definition charAt :: "string \<Rightarrow> nat \<Rightarrow> string" where
  "charAt s i = take 1 (drop i s)"

definition slice_pos :: "string \<Rightarrow> int \<Rightarrow> nat" where
  "slice_pos s a = (let len = int (length s) in
     nat (if a < 0 then max (len + a) 0 else min a len))"

definition slice2 :: "string \<Rightarrow> int \<Rightarrow> int \<Rightarrow> string" where
  "slice2 s a b = take (slice_pos s b - slice_pos s a) (drop (slice_pos s a) s)"

definition slice1 :: "string \<Rightarrow> int \<Rightarrow> string" where
  "slice1 s a = drop (slice_pos s a) s"

text \<open>\<^verbatim>\<open>s.split(' ')\<close>: the pieces between single spaces, empty pieces included.\<close>

fun split_sp :: "string \<Rightarrow> string list" where
  "split_sp [] = [[]]"
| "split_sp (c # cs) =
     (if c = CHR '' '' then [] # split_sp cs
      else (case split_sp cs of [] \<Rightarrow> [[c]] | w # ws \<Rightarrow> (c # w) # ws))"

text \<open>\<^verbatim>\<open>s.indexOf(' ', from)\<close>, with \<open>-1\<close> for no occurrence.\<close>

definition indexOf_sp :: "string \<Rightarrow> nat \<Rightarrow> int" where
  "indexOf_sp s from =
     (let r = drop from s; k = length (takeWhile (\<lambda>c. c \<noteq> CHR '' '') r)
      in if k < length r then int (from + k) else - 1)"

text \<open>\<^verbatim>\<open>s.split('_').join(' ')\<close> replaces every underscore by a space.\<close>

definition underscores_to_spaces :: "string \<Rightarrow> string" where
  "underscores_to_spaces s = map (\<lambda>c. if c = CHR ''_'' then CHR '' '' else c) s"

subsection \<open>Parsing numbers\<close>

definition is_ws :: "char \<Rightarrow> bool" where
  "is_ws c \<longleftrightarrow> c \<in> {CHR 0x20, CHR 0x09, CHR 0x0A, CHR 0x0B, CHR 0x0C, CHR 0x0D, CHR 0xA0}"

definition digit_val :: "char \<Rightarrow> nat option" where
  "digit_val c =
     (let n = of_char c :: nat in
      if 48 \<le> n \<and> n \<le> 57 then Some (n - 48)
      else if 97 \<le> n \<and> n \<le> 122 then Some (n - 87)
      else if 65 \<le> n \<and> n \<le> 90 then Some (n - 55)
      else None)"

definition is_digit :: "nat \<Rightarrow> char \<Rightarrow> bool" where
  "is_digit radix c = (case digit_val c of None \<Rightarrow> False | Some d \<Rightarrow> d < radix)"

definition digits_val :: "nat \<Rightarrow> string \<Rightarrow> nat" where
  "digits_val radix ds = foldl (\<lambda>acc c. acc * radix + the (digit_val c)) 0 ds"

text \<open>A leading sign: the factor and the rest of the string.\<close>

definition strip_sign :: "string \<Rightarrow> int \<times> string" where
  "strip_sign s =
     (case s of
        c # cs \<Rightarrow> (if c = CHR ''-'' then (- 1, cs) else if c = CHR ''+'' then (1, cs) else (1, s))
      | [] \<Rightarrow> (1, s))"

text \<open>
  \<^verbatim>\<open>parseInt(s, 10)\<close> and \<^verbatim>\<open>parseInt(s, 16)\<close>: leading white space and a sign are skipped,
  radix 16 also skips a prefix \<^verbatim>\<open>0x\<close>, and the longest run of digits is read;
  no digit gives \<^verbatim>\<open>NaN\<close>. The argument \<^verbatim>\<open>undefined\<close> (here \<open>None\<close>) is first turned
  into the string \<^verbatim>\<open>undefined\<close>, which has no digit in either radix.
\<close>

definition parseInt_str :: "nat \<Rightarrow> string \<Rightarrow> jsnum" where
  "parseInt_str radix s =
     (case strip_sign (dropWhile is_ws s) of
        (sg, r) \<Rightarrow>
          (let r1 = (if radix = 16 \<and> (take 2 r = ''0x'' \<or> take 2 r = ''0X'') then drop 2 r else r);
               ds = takeWhile (is_digit radix) r1
           in if ds = [] then NaN else num (sg * int (digits_val radix ds))))"

definition parseInt :: "string option \<Rightarrow> nat \<Rightarrow> jsnum" where
  "parseInt s radix = (case s of None \<Rightarrow> NaN | Some t \<Rightarrow> parseInt_str radix t)"

text \<open>
  \<^verbatim>\<open>parseFloat(s)\<close>: the longest prefix (after white space) that is a decimal literal:
  a sign, then \<^verbatim>\<open>Infinity\<close> or digits with an optional fraction and an optional
  exponent. The value is the exact decimal value.
\<close>

definition parse_exponent :: "string \<Rightarrow> int" where
  "parse_exponent r =
     (case r of
        c # cs \<Rightarrow>
          (if c = CHR ''e'' \<or> c = CHR ''E'' then
             (case strip_sign cs of
                (sg, r1) \<Rightarrow> sg * int (digits_val 10 (takeWhile (is_digit 10) r1)))
           else 0)
      | [] \<Rightarrow> 0)"

definition parseFloat_str :: "string \<Rightarrow> jsnum" where
  "parseFloat_str s =
     (case strip_sign (dropWhile is_ws s) of
        (sg, r) \<Rightarrow>
          (if take 8 r = ''Infinity'' then js_inf sg
           else
             (let ip = takeWhile (is_digit 10) r;
                  r1 = drop (length ip) r;
                  fp = (if take 1 r1 = ''.'' then takeWhile (is_digit 10) (drop 1 r1) else []);
                  r2 = (if take 1 r1 = ''.'' then drop (1 + length fp) r1 else r1);
                  m = real (digits_val 10 ip) + real (digits_val 10 fp) / 10 ^ length fp
              in if ip = [] \<and> fp = [] then NaN
                 else Fin (real_of_int sg * m * 10 powi parse_exponent r2))))"

definition parseFloat :: "string option \<Rightarrow> jsnum" where
  "parseFloat s = (case s of None \<Rightarrow> NaN | Some t \<Rightarrow> parseFloat_str t)"

section \<open>The line cursor (DataIterator)\<close>

text \<open>
  The cursor of \<^verbatim>\<open>DataIterator\<close> is a global regular expression \<^verbatim>\<open>[^\r\n]+\<close> whose
  \<^verbatim>\<open>lastIndex\<close> is the scan position. Strings are character lists, the position is a
  natural number, and \<^verbatim>\<open>undefined\<close> for the current line is \<open>None\<close>.
\<close>

definition is_eol :: "char \<Rightarrow> bool" where
  "is_eol c \<longleftrightarrow> c = CHR 0x0D \<or> c = CHR 0x0A"

record data_iterator =
  it_data :: string
  it_lastIndex :: nat
  it_line :: "string option"
  it_partialData :: bool

text \<open>
  \<^verbatim>\<open>regExp.exec(data)\<close> for the sticky-less global expression: the search starts at
  \<^verbatim>\<open>lastIndex\<close>, skips line terminators, and matches the longest run of other characters.
  A failed search (also one started beyond the end) resets \<^verbatim>\<open>lastIndex\<close> to 0.
  The result is the match (if any) and the new \<^verbatim>\<open>lastIndex\<close>.
\<close>

definition regExp_exec :: "string \<Rightarrow> nat \<Rightarrow> string option \<times> nat" where
  "regExp_exec s i =
     (let j = i + length (takeWhile is_eol (drop i s));
          tok = takeWhile (\<lambda>c. \<not> is_eol c) (drop j s)
      in if tok = [] then (None, 0) else (Some tok, j + length tok))"

definition new_DataIterator :: "string \<Rightarrow> bool \<Rightarrow> data_iterator" where
  "new_DataIterator d partial =
     \<lparr>it_data = d, it_lastIndex = 0, it_line = None, it_partialData = partial\<rparr>"

definition it_dispose :: "data_iterator \<Rightarrow> data_iterator" where
  "it_dispose it = \<lparr>it_data = [], it_lastIndex = 0, it_line = None, it_partialData = False\<rparr>"

definition it_update :: "data_iterator \<Rightarrow> string \<Rightarrow> bool \<Rightarrow> bool \<Rightarrow> bool \<times> data_iterator" where
  "it_update it d partial incremental =
     (let it1 = (if incremental
                 then it\<lparr>it_data := drop (it_lastIndex it) (it_data it) @ d, it_lastIndex := 0\<rparr>
                 else it\<lparr>it_data := d\<rparr>);
          it2 = it1\<lparr>it_partialData := partial\<rparr>
      in (it_line it2 = None, it2))"

definition it_hasNext :: "data_iterator \<Rightarrow> bool" where
  "it_hasNext it =
     (case regExp_exec (it_data it) (it_lastIndex it) of
        (tokens, li) \<Rightarrow>
          (if it_partialData it \<and> li = length (it_data it) then False else tokens \<noteq> None))"

definition it_next :: "data_iterator \<Rightarrow> string option \<times> data_iterator" where
  "it_next it =
     (let idx = it_lastIndex it in
      case regExp_exec (it_data it) idx of
        (tokens, li) \<Rightarrow>
          (case (if it_partialData it \<and> li = length (it_data it) then None else tokens) of
             None \<Rightarrow> (None, it\<lparr>it_lastIndex := idx, it_line := None\<rparr>)
           | Some t \<Rightarrow> (Some t, it\<lparr>it_lastIndex := li, it_line := Some t\<rparr>)))"

subsection \<open>The lines of a text\<close>

text \<open>
  Independently of the cursor: \<open>scan r\<close> is the first line of the text \<open>r\<close> and the text
  behind it; \<open>all_lines r\<close> are the lines of a complete text; \<open>avail r\<close> are the lines
  of a partial text that are followed by a line terminator, and the text behind the last
  of them. The theorems on the decoders speak of texts through these.
\<close>

definition scan :: "string \<Rightarrow> (string \<times> string) option" where
  "scan r =
     (let r1 = dropWhile is_eol r; tok = takeWhile (\<lambda>c. \<not> is_eol c) r1
      in if tok = [] then None else Some (tok, dropWhile (\<lambda>c. \<not> is_eol c) r1))"

lemma scan_shorter: "scan r = Some (tok, r2) \<Longrightarrow> length r2 < length r"
proof -
  assume a: "scan r = Some (tok, r2)"
  define r1 where "r1 = dropWhile is_eol r"
  from a have t: "takeWhile (\<lambda>c. \<not> is_eol c) r1 \<noteq> []" and r2: "r2 = dropWhile (\<lambda>c. \<not> is_eol c) r1"
    by (auto simp: scan_def Let_def r1_def split: if_splits)
  have "length r1 = length (takeWhile (\<lambda>c. \<not> is_eol c) r1) + length r2"
    unfolding r2 by (metis length_append takeWhile_dropWhile_id)
  moreover have "length r1 \<le> length r"
    unfolding r1_def by (rule length_dropWhile_le)
  moreover have "0 < length (takeWhile (\<lambda>c. \<not> is_eol c) r1)" using t by simp
  ultimately show ?thesis by linarith
qed

function all_lines :: "string \<Rightarrow> string list" where
  "all_lines r = (case scan r of None \<Rightarrow> [] | Some (tok, r2) \<Rightarrow> tok # all_lines r2)"
  by pat_completeness auto
termination
  by (relation "measure length") (auto dest: scan_shorter scan_shorter[OF sym])

declare all_lines.simps [simp del]

function avail :: "string \<Rightarrow> string list \<times> string" where
  "avail r =
     (case scan r of
        None \<Rightarrow> ([], r)
      | Some (tok, r2) \<Rightarrow>
          (if r2 = [] then ([], r) else (case avail r2 of (ls, r') \<Rightarrow> (tok # ls, r'))))"
  by pat_completeness auto
termination
  by (relation "measure length") (auto dest: scan_shorter scan_shorter[OF sym])

declare avail.simps [simp del]

text \<open>
  The text behind the cursor; the cursor is well formed when its position is inside the
  data; the lines that the cursor will still yield before more data arrives.
\<close>

definition it_rest :: "data_iterator \<Rightarrow> string" where
  "it_rest it = drop (it_lastIndex it) (it_data it)"

definition it_wf :: "data_iterator \<Rightarrow> bool" where
  "it_wf it \<longleftrightarrow> it_lastIndex it \<le> length (it_data it)"

definition lines_of :: "data_iterator \<Rightarrow> string list" where
  "lines_of it = (if it_partialData it then fst (avail (it_rest it)) else all_lines (it_rest it))"

text \<open>
  The lines still to be decoded: the current line of the cursor, fetched but not yet
  decoded, and the lines it will yield.
\<close>

definition todo :: "data_iterator \<Rightarrow> string list" where
  "todo it = (case it_line it of None \<Rightarrow> [] | Some l \<Rightarrow> [l]) @ lines_of it"

section \<open>The token-tree parser (SymbolTreeParser)\<close>

datatype exn = ParserError string | Error string | TypeError | OutOfFuel

datatype symbol_node = SymbolNode (sn_values: "string list") (sn_children: "symbol_node list")

text \<open>
  \<^verbatim>\<open>parseNode\<close> scans from \<^verbatim>\<open>idx\<close> with the pending token starting at \<^verbatim>\<open>startIdx\<close>;
  \<open>vals\<close> and \<open>kids\<close> are the values and children pushed to the new node so far. The
  source recurses at every opening parenthesis and continues behind the position the call
  returns, so the recursion is nested; the model counts the loop iterations and calls down
  from a bound (one more than the length of the input is always enough, see
  \<open>parseNode_enough_fuel\<close>).
\<close>

definition push_value :: "string \<Rightarrow> nat \<Rightarrow> nat \<Rightarrow> string list \<Rightarrow> string list" where
  "push_value input startIdx idx vals =
     (if idx > startIdx then vals @ [take (idx - startIdx) (drop startIdx input)] else vals)"

fun parseNode :: "nat \<Rightarrow> string \<Rightarrow> nat \<Rightarrow> nat \<Rightarrow> string list \<Rightarrow> symbol_node list
    \<Rightarrow> exn + (nat \<times> symbol_node)" where
  "parseNode 0 input idx startIdx vals kids = Inl OutOfFuel"
| "parseNode (Suc fuel) input idx startIdx vals kids =
     (if idx < length input then
        (if input ! idx = CHR ''('' then
           (case parseNode fuel input (idx + 1) (idx + 1) [] [] of
              Inl e \<Rightarrow> Inl e
            | Inr (pos, child) \<Rightarrow>
                parseNode fuel input pos pos (push_value input startIdx idx vals) (kids @ [child]))
         else if input ! idx = CHR '')'' then
           Inr (idx + 1, SymbolNode (push_value input startIdx idx vals) kids)
         else if input ! idx = CHR '' '' then
           parseNode fuel input (idx + 1) (idx + 1) (push_value input startIdx idx vals) kids
         else parseNode fuel input (idx + 1) startIdx vals kids)
      else Inl (Error (''Invalid tree structure in input: '' @ input)))"

definition SymbolTreeParser_parse :: "string \<Rightarrow> exn + symbol_node" where
  "SymbolTreeParser_parse input =
     (if charAt input 0 \<noteq> ''('' \<or> charAt input (length input - 1) \<noteq> '')''
      then Inl (Error (''Input not embedded in braces: '' @ input))
      else (case parseNode (Suc (length input)) input 1 1 [] [] of
              Inl e \<Rightarrow> Inl e
            | Inr (pos, node) \<Rightarrow>
                (if pos \<noteq> length input then Inl (Error (''Multiple root nodes in input: '' @ input))
                 else Inr node)))"

section \<open>The data model\<close>

subsection \<open>Parameter maps\<close>

text \<open>
  A \<^verbatim>\<open>ParameterObject\<close> is whatever \<^verbatim>\<open>JSON.parse\<close> returned or what the ULG decoder
  filled in: a JSON value, an object being an association list from keys to values.
  Objects compared by reference (\<^verbatim>\<open>ParameterMap\<close>, \<^verbatim>\<open>GameState\<close>, \<^verbatim>\<open>GameScore\<close>) carry
  the number of their allocation; they are never changed once another object refers to
  them, so a reference is modelled as the object together with this number.
\<close>

datatype jsval = JNull | JBool bool | JNum jsnum | JStr string
  | JArr "jsval list" | JObj "(string \<times> jsval) list"

record param_map =
  pm_ref :: nat
  paramObj :: jsval

fun obj_set :: "(string \<times> jsval) list \<Rightarrow> string \<Rightarrow> jsval \<Rightarrow> (string \<times> jsval) list" where
  "obj_set [] k v = [(k, v)]"
| "obj_set ((k', v') # r) k v = (if k' = k then (k, v) # r else (k', v') # obj_set r k v)"

text \<open>
  \<^verbatim>\<open>paramObj[key]\<close>: a property of an object; reading a property of \<^verbatim>\<open>null\<close> throws; the
  parameter names are taken not to name a built-in property of an array, string, number
  or boolean.
\<close>

definition obj_get :: "jsval \<Rightarrow> string \<Rightarrow> exn + jsval option" where
  "obj_get obj key =
     (case obj of JNull \<Rightarrow> Inl TypeError | JObj kvs \<Rightarrow> Inr (map_of kvs key) | _ \<Rightarrow> Inr None)"

definition pm_clear :: "param_map \<Rightarrow> param_map" where
  "pm_clear m = m\<lparr>paramObj := JObj []\<rparr>"

definition getNumber :: "param_map \<Rightarrow> string \<Rightarrow> exn + jsnum option" where
  "getNumber m key =
     (case obj_get (paramObj m) key of
        Inl e \<Rightarrow> Inl e
      | Inr (Some (JNum n)) \<Rightarrow> Inr (Some n)
      | Inr _ \<Rightarrow> Inr None)"

subsection \<open>Object and agent states\<close>

type_synonym state_arr = "jsnum list"

definition encodeObjectState :: "jsnum \<Rightarrow> jsnum \<Rightarrow> jsnum \<Rightarrow> jsnum \<Rightarrow> jsnum \<Rightarrow> jsnum \<Rightarrow> jsnum \<Rightarrow> state_arr" where
  "encodeObjectState x y z qx qy qz qw = [x, y, z, qx, qy, qz, qw]"

text \<open>\<^verbatim>\<open>new ObjectState()\<close>, and \<^verbatim>\<open>new ObjectState({x: .., .., qw: ..})\<close>.\<close>

definition new_ObjectState :: state_arr where
  "new_ObjectState = encodeObjectState (Fin 0) (Fin 0) (Fin 0) (Fin 0) (Fin 0) (Fin 0) (Fin 1)"

text \<open>\<^verbatim>\<open>state[i] || 0\<close> and \<^verbatim>\<open>state[i] !== undefined ? state[i] : 1\<close>.\<close>

definition or_zero :: "jsnum option \<Rightarrow> jsnum" where
  "or_zero v = (case v of None \<Rightarrow> Fin 0 | Some a \<Rightarrow> (if js_truthy a then a else Fin 0))"

definition os_x :: "state_arr \<Rightarrow> jsnum" where "os_x st = or_zero (nth_opt st 0)"
definition os_y :: "state_arr \<Rightarrow> jsnum" where "os_y st = or_zero (nth_opt st 1)"
definition os_z :: "state_arr \<Rightarrow> jsnum" where "os_z st = or_zero (nth_opt st 2)"
definition os_qx :: "state_arr \<Rightarrow> jsnum" where "os_qx st = or_zero (nth_opt st 3)"
definition os_qy :: "state_arr \<Rightarrow> jsnum" where "os_qy st = or_zero (nth_opt st 4)"
definition os_qz :: "state_arr \<Rightarrow> jsnum" where "os_qz st = or_zero (nth_opt st 5)"
definition os_qw :: "state_arr \<Rightarrow> jsnum" where
  "os_qw st = (case nth_opt st 6 of None \<Rightarrow> Fin 1 | Some a \<Rightarrow> a)"

text \<open>\<^verbatim>\<open>v !== 0\<close> for an array element \<open>v\<close>, which is \<^verbatim>\<open>undefined\<close> beyond the end.\<close>

definition ne_zero :: "jsnum option \<Rightarrow> bool" where
  "ne_zero v = (case v of None \<Rightarrow> True | Some a \<Rightarrow> \<not> js_eq a (Fin 0))"

definition os_isValid :: "state_arr \<Rightarrow> bool" where
  "os_isValid st \<longleftrightarrow>
     ne_zero (nth_opt st 3) \<or> ne_zero (nth_opt st 4) \<or> ne_zero (nth_opt st 5) \<or> ne_zero (nth_opt st 6)"

text \<open>
  \<^verbatim>\<open>encodeAgentState\<close> writes into a fresh \<^verbatim>\<open>Float32Array\<close> of the exact size. The
  \<^verbatim>\<open>data\<close> array may have holes; a hole is stored as \<^verbatim>\<open>NaN\<close>.
\<close>

definition hole_to_NaN :: "jsnum option \<Rightarrow> jsnum" where
  "hole_to_NaN v = (case v of None \<Rightarrow> NaN | Some a \<Rightarrow> a)"

definition encodeAgentState :: "jsnum \<Rightarrow> jsnum \<Rightarrow> jsnum \<Rightarrow> jsnum \<Rightarrow> jsnum \<Rightarrow> jsnum \<Rightarrow> jsnum
    \<Rightarrow> jsnum \<Rightarrow> jsnum \<Rightarrow> jsnum option list \<Rightarrow> jsnum option list \<Rightarrow> state_arr" where
  "encodeAgentState modelIdx flags x y z qx qy qz qw jointAngles dat =
     encodeObjectState x y z qx qy qz qw
       @ [modelIdx, flags, num (10 + int (length jointAngles))]
       @ map hole_to_NaN jointAngles @ map hole_to_NaN dat"

definition as_isValid :: "state_arr \<Rightarrow> bool" where
  "as_isValid st \<longleftrightarrow> os_isValid st \<and> length st > 9"

subsection \<open>Game state, game score, world state\<close>

record game_state =
  gs_ref :: nat
  gs_time :: jsnum
  playMode :: string

record game_score =
  sc_ref :: nat
  sc_time :: jsnum
  goalsLeft :: jsnum
  penaltyScoreLeft :: jsnum
  penaltyMissLeft :: jsnum
  goalsRight :: jsnum
  penaltyScoreRight :: jsnum
  penaltyMissRight :: jsnum

record world_state =
  ws_time :: jsnum
  ws_gameTime :: jsnum
  ws_gameState :: game_state
  ws_score :: game_score
  ballStateArr :: state_arr
  leftAgentStateArrs :: "state_arr option list"
  rightAgentStateArrs :: "state_arr option list"

subsection \<open>Team and agent descriptions\<close>

datatype team_side = LEFT | NEUTRAL | RIGHT

record agent_description =
  ad_playerNo :: jsnum
  ad_side :: team_side
  ad_playerTypes :: "param_map option list"
  recentTypeIdx :: nat

text \<open>Strict equality of two references to parameter maps, either possibly \<^verbatim>\<open>undefined\<close>.\<close>

definition same_pm :: "param_map option \<Rightarrow> param_map option \<Rightarrow> bool" where
  "same_pm a b =
     (case (a, b) of (None, None) \<Rightarrow> True | (Some x, Some y) \<Rightarrow> pm_ref x = pm_ref y | _ \<Rightarrow> False)"

fun indexOf_pm :: "param_map option list \<Rightarrow> param_map option \<Rightarrow> nat option" where
  "indexOf_pm [] p = None"
| "indexOf_pm (q # qs) p =
     (if same_pm q p then Some 0 else map_option Suc (indexOf_pm qs p))"

definition addPlayerType :: "agent_description \<Rightarrow> param_map option \<Rightarrow> bool \<times> agent_description" where
  "addPlayerType a playerType =
     (case indexOf_pm (ad_playerTypes a) playerType of
        None \<Rightarrow> (True, a\<lparr>ad_playerTypes := ad_playerTypes a @ [playerType],
                         recentTypeIdx := length (ad_playerTypes a)\<rparr>)
      | Some idx \<Rightarrow> (False, a\<lparr>recentTypeIdx := idx\<rparr>))"

record team_description =
  td_side :: team_side
  td_name :: string
  td_agents :: "agent_description list"

text \<open>The colour of a team is a value of the rendering library and is left out.\<close>

definition new_TeamDescription :: "string \<Rightarrow> team_side \<Rightarrow> team_description" where
  "new_TeamDescription name side = \<lparr>td_side = side, td_name = name, td_agents = []\<rparr>"

definition set_name :: "team_description \<Rightarrow> string \<Rightarrow> team_description" where
  "set_name t newName =
     (let n = underscores_to_spaces newName in if td_name t \<noteq> n then t\<lparr>td_name := n\<rparr> else t)"

text \<open>
  The loops of \<^verbatim>\<open>addAgent\<close> and \<^verbatim>\<open>getRecentTypeIdx\<close> run from the last description to the
  first; \<open>rev_find\<close> gives the index of the last description with the player number.
\<close>

fun rev_find :: "agent_description list \<Rightarrow> jsnum \<Rightarrow> nat option" where
  "rev_find [] n = None"
| "rev_find (a # as) n =
     (case rev_find as n of
        Some i \<Rightarrow> Some (Suc i)
      | None \<Rightarrow> (if js_eq (ad_playerNo a) n then Some 0 else None))"

definition addAgent :: "team_description \<Rightarrow> jsnum \<Rightarrow> param_map option \<Rightarrow> bool \<times> team_description" where
  "addAgent t n playerType =
     (case rev_find (td_agents t) n of
        Some i \<Rightarrow>
          (case addPlayerType (td_agents t ! i) playerType of
             (changed, a) \<Rightarrow> (changed, t\<lparr>td_agents := (td_agents t)[i := a]\<rparr>))
      | None \<Rightarrow>
          (True, t\<lparr>td_agents := td_agents t @
             [\<lparr>ad_playerNo = n, ad_side = td_side t, ad_playerTypes = [playerType],
               recentTypeIdx = 0\<rparr>]\<rparr>))"

definition getRecentTypeIdx :: "team_description \<Rightarrow> jsnum \<Rightarrow> nat" where
  "getRecentTypeIdx t playerNo =
     (case rev_find (td_agents t) playerNo of
        Some i \<Rightarrow> recentTypeIdx (td_agents t ! i)
      | None \<Rightarrow> 0)"

subsection \<open>The snapshot accumulator (PartialWorldState)\<close>

text \<open>
  \<open>pws_fresh\<close> is the number of \<^verbatim>\<open>GameState\<close> and \<^verbatim>\<open>GameScore\<close> objects this
  accumulator has created; it numbers the next one.
\<close>

record partial_world_state =
  pws_time :: jsnum
  timeStep :: jsnum
  gameTime :: jsnum
  gameState :: game_state
  score :: game_score
  ballState :: state_arr
  leftAgentStates :: "state_arr option list"
  rightAgentStates :: "state_arr option list"
  pws_fresh :: nat

definition new_GameScore :: "nat \<Rightarrow> jsnum \<Rightarrow> jsnum \<Rightarrow> jsnum \<Rightarrow> jsnum \<Rightarrow> jsnum \<Rightarrow> jsnum \<Rightarrow> jsnum
    \<Rightarrow> game_score" where
  "new_GameScore r t gl gr psl pml psr pmr =
     \<lparr>sc_ref = r, sc_time = t, goalsLeft = gl, penaltyScoreLeft = psl, penaltyMissLeft = pml,
      goalsRight = gr, penaltyScoreRight = psr, penaltyMissRight = pmr\<rparr>"

definition new_PartialWorldState :: "jsnum \<Rightarrow> jsnum \<Rightarrow> jsnum \<Rightarrow> partial_world_state" where
  "new_PartialWorldState t step gt =
     \<lparr>pws_time = t, timeStep = step, gameTime = gt,
      gameState = \<lparr>gs_ref = 0, gs_time = t, playMode = ''unknown''\<rparr>,
      score = new_GameScore 1 t (Fin 0) (Fin 0) (Fin 0) (Fin 0) (Fin 0) (Fin 0),
      ballState = new_ObjectState,
      leftAgentStates = [], rightAgentStates = [], pws_fresh = 2\<rparr>"

definition round3 :: "jsnum \<Rightarrow> jsnum" where
  "round3 a = js_div (Math_round (js_mul a (Fin 1000))) (Fin 1000)"

definition setGameTime :: "jsnum \<Rightarrow> partial_world_state \<Rightarrow> partial_world_state" where
  "setGameTime gt p = p\<lparr>gameTime := round3 gt\<rparr>"

definition setPlaymode :: "string \<Rightarrow> partial_world_state \<Rightarrow> partial_world_state" where
  "setPlaymode pm p =
     (if playMode (gameState p) \<noteq> pm
      then p\<lparr>gameState := \<lparr>gs_ref = pws_fresh p, gs_time = pws_time p, playMode = pm\<rparr>,
             pws_fresh := Suc (pws_fresh p)\<rparr>
      else p)"

definition setScore :: "jsnum \<Rightarrow> jsnum \<Rightarrow> jsnum \<Rightarrow> jsnum \<Rightarrow> jsnum \<Rightarrow> jsnum
    \<Rightarrow> partial_world_state \<Rightarrow> partial_world_state" where
  "setScore gl gr psl pml psr pmr p =
     (if \<not> js_eq (goalsLeft (score p)) gl \<or> \<not> js_eq (goalsRight (score p)) gr \<or>
         \<not> js_eq (penaltyScoreLeft (score p)) psl \<or> \<not> js_eq (penaltyMissLeft (score p)) pml \<or>
         \<not> js_eq (penaltyScoreRight (score p)) psr \<or> \<not> js_eq (penaltyMissRight (score p)) pmr
      then p\<lparr>score := new_GameScore (pws_fresh p) (pws_time p) gl gr psl pml psr pmr,
             pws_fresh := Suc (pws_fresh p)\<rparr>
      else p)"

text \<open>
  \<^verbatim>\<open>appendTo(states)\<close>: the new list of states, whether a state was appended, and the
  accumulator afterwards.
\<close>

definition appendTo :: "partial_world_state \<Rightarrow> world_state list
    \<Rightarrow> bool \<times> partial_world_state \<times> world_state list" where
  "appendTo p sts =
     (if length (leftAgentStates p) + length (rightAgentStates p) > 0 then
        (True,
         p\<lparr>pws_time := round3 (js_add (pws_time p) (timeStep p)),
           leftAgentStates := [], rightAgentStates := []\<rparr>,
         sts @ [\<lparr>ws_time = pws_time p, ws_gameTime = gameTime p, ws_gameState = gameState p,
                 ws_score = score p, ballStateArr = ballState p,
                 leftAgentStateArrs = leftAgentStates p,
                 rightAgentStateArrs = rightAgentStates p\<rparr>])
      else (False, p, sts))"

subsection \<open>The simulation log\<close>

datatype SimulationType = TWOD | THREED

text \<open>
  The module \<^verbatim>\<open>SServerUtil\<close> (default parameters of 2D games, names of 2D parameters,
  positions of the generic agent data, agent flags) is not part of the sources at hand;
  its constants are the fields of a record that the functions using them take as argument.
\<close>

record sserver_util =
  SIMULATOR_STEP :: string
  PlayerType2D_ID :: string
  default2DEnvironmentParams :: "(string \<times> jsval) list"
  default2DPlayerParams :: "(string \<times> jsval) list"
  default2DPlayerTypeParams :: "(string \<times> jsval) list list"
  STAND :: "32 word"
  GOALIE :: "32 word"
  STAMINA :: nat
  STAMINA_EFFORT :: nat
  STAMINA_RECOVERY :: nat
  STAMINA_CAPACITY :: nat
  FOCUS_SIDE :: nat
  FOCUS_UNUM :: nat
  KICK_COUNT :: nat
  DASH_COUNT :: nat
  TURN_COUNT :: nat
  CATCH_COUNT :: nat
  MOVE_COUNT :: nat
  TURN_NECK_COUNT :: nat
  VIEW_COUNT :: nat
  SAY_COUNT :: nat
  TACKLE_COUNT :: nat
  POINT_TO_COUNT :: nat
  ATTENTION_COUNT :: nat

text \<open>
  \<open>playerTypes\<close> is only read and written by key, so it is a map from keys to parameter
  maps. \<open>log_fresh\<close> numbers the next \<^verbatim>\<open>ParameterMap\<close> object. \<open>version\<close> is the field of
  the two subclasses \<^verbatim>\<open>Replay\<close> and \<^verbatim>\<open>SServerLog\<close>.
\<close>

record simulation_log =
  log_type :: SimulationType
  frequency :: jsnum
  environmentParams :: param_map
  playerParams :: param_map
  playerTypes :: "jsnum \<Rightarrow> param_map option"
  leftTeam :: team_description
  rightTeam :: team_description
  states :: "world_state list"
  startTime :: jsnum
  endTime :: jsnum
  duration :: jsnum
  gameStateList :: "game_state list"
  gameScoreList :: "game_score list"
  fullyLoaded :: bool
  version :: jsnum
  log_fresh :: nat

text \<open>The environment parameters of \<^verbatim>\<open>SparkUtil\<close> for the versions of the 3D simulator.\<close>

definition dec :: "int \<Rightarrow> nat \<Rightarrow> jsval" where
  "dec m e = JNum (Fin (real_of_int m / 10 ^ e))"

definition paramsV62 :: "(string \<times> jsval) list" where
  "paramsV62 =
     [(''log_step'', dec 200 0), (''FieldLength'', dec 12 0), (''FieldWidth'', dec 8 0),
      (''FieldHeight'', dec 40 0), (''GoalWidth'', dec 14 1), (''GoalDepth'', dec 4 1),
      (''GoalHeight'', dec 8 1), (''FreeKickDistance'', dec 1 0), (''AgentRadius'', dec 4 1),
      (''BallRadius'', dec 42 3), (''RuleHalfTime'', dec 300 0)]"

definition paramsV63 :: "(string \<times> jsval) list" where
  "paramsV63 =
     obj_set (obj_set (obj_set (obj_set (obj_set paramsV62
       ''FieldLength'' (dec 18 0)) ''FieldWidth'' (dec 12 0)) ''GoalWidth'' (dec 21 1))
       ''GoalDepth'' (dec 6 1)) ''FreeKickDistance'' (dec 18 1)"

definition paramsV64 :: "(string \<times> jsval) list" where
  "paramsV64 = obj_set (obj_set paramsV63 ''FieldLength'' (dec 21 0)) ''FieldWidth'' (dec 14 0)"

definition paramsV66 :: "(string \<times> jsval) list" where
  "paramsV66 =
     obj_set (obj_set (obj_set paramsV63 ''FieldLength'' (dec 30 0)) ''FieldWidth'' (dec 20 0))
       ''FreeKickDistance'' (dec 2 0)"

definition default3DPlayerType :: "nat \<Rightarrow> (string \<times> jsval) list" where
  "default3DPlayerType i = [(''model'', JStr ''nao_hetero''), (''model_type'', JNum (num (int i)))]"

text \<open>The array of default player types as a map from its indices, numbered from \<open>r\<close>.\<close>

definition types_map :: "nat \<Rightarrow> (string \<times> jsval) list list \<Rightarrow> jsnum \<Rightarrow> param_map option" where
  "types_map r objs k =
     (case array_index k of
        None \<Rightarrow> None
      | Some i \<Rightarrow> (if i < length objs then Some \<lparr>pm_ref = r + i, paramObj = JObj (objs ! i)\<rparr> else None))"

definition updateFrequency :: "sserver_util \<Rightarrow> simulation_log \<Rightarrow> exn option \<times> simulation_log" where
  "updateFrequency U lg =
     (case getNumber (environmentParams lg)
             (if log_type lg = TWOD then SIMULATOR_STEP U else ''log_step'') of
        Inl e \<Rightarrow> (Some e, lg)
      | Inr None \<Rightarrow> (None, lg)
      | Inr (Some step) \<Rightarrow>
          (None, if js_truthy step then lg\<lparr>frequency := js_div (Fin 1000) step\<rparr> else lg))"

definition new_SimulationLog :: "sserver_util \<Rightarrow> SimulationType \<Rightarrow> jsnum \<Rightarrow> simulation_log" where
  "new_SimulationLog U ty ver =
     (let types = (if ty = TWOD then default2DPlayerTypeParams U else map default3DPlayerType [0..<5])
      in snd (updateFrequency U
        \<lparr>log_type = ty, frequency = Fin 1,
         environmentParams = \<lparr>pm_ref = 0, paramObj =
            JObj (if ty = TWOD then default2DEnvironmentParams U else paramsV66)\<rparr>,
         playerParams = \<lparr>pm_ref = 1, paramObj =
            JObj (if ty = TWOD then default2DPlayerParams U else [])\<rparr>,
         playerTypes = types_map 2 types,
         leftTeam = new_TeamDescription ''Left Team'' LEFT,
         rightTeam = new_TeamDescription ''Right Team'' RIGHT,
         states = [], startTime = Fin 0, endTime = Fin 0, duration = Fin 0,
         gameStateList = [], gameScoreList = [], fullyLoaded = False,
         version = ver, log_fresh = 2 + length types\<rparr>))"

text \<open>\<^verbatim>\<open>onStatesUpdated\<close>: objects are compared by reference.\<close>

fun collect_changes :: "('a \<Rightarrow> nat) \<Rightarrow> 'a \<Rightarrow> 'a list \<Rightarrow> 'a list" where
  "collect_changes ref prev [] = []"
| "collect_changes ref prev (x # xs) =
     (if ref prev \<noteq> ref x then x # collect_changes ref x xs else collect_changes ref prev xs)"

definition onStatesUpdated :: "simulation_log \<Rightarrow> simulation_log" where
  "onStatesUpdated lg =
     (case states lg of
        [] \<Rightarrow> lg
      | s0 # rest \<Rightarrow>
          lg\<lparr>startTime := ws_time s0,
              endTime := ws_time (last (states lg)),
              duration := js_sub (ws_time (last (states lg))) (ws_time s0),
              gameStateList := ws_gameState s0 # collect_changes gs_ref (ws_gameState s0) (map ws_gameState rest),
              gameScoreList := ws_score s0 # collect_changes sc_ref (ws_score s0) (map ws_score rest)\<rparr>)"

definition finalize :: "simulation_log \<Rightarrow> simulation_log" where
  "finalize lg = onStatesUpdated (lg\<lparr>fullyLoaded := True\<rparr>)"

subsection \<open>The storage of a decoder\<close>

record log_parser_storage =
  partialState :: "partial_world_state option"
  maxStates :: nat
  leftIndexList :: "jsnum \<Rightarrow> nat option"
  rightIndexList :: "jsnum \<Rightarrow> nat option"

definition new_LogParserStorage :: log_parser_storage where
  "new_LogParserStorage =
     \<lparr>partialState = None, maxStates = 500, leftIndexList = (\<lambda>k. None),
      rightIndexList = (\<lambda>k. None)\<rparr>"

record parse_state =
  ps_log :: simulation_log
  ps_storage :: log_parser_storage

text \<open>Decoding a list of lines one after the other with the line decoder \<open>h\<close>.\<close>

definition run_lines :: "(string \<Rightarrow> parse_state \<Rightarrow> bool \<times> parse_state) \<Rightarrow> parse_state \<Rightarrow> string list
    \<Rightarrow> parse_state" where
  "run_lines h st ls = foldl (\<lambda>s l. snd (h l s)) st ls"

text \<open>
  The fields of the log that \<^verbatim>\<open>onStatesUpdated\<close> derives from the list of states, set to
  given values.
\<close>

type_synonym derived = "jsnum \<times> jsnum \<times> jsnum \<times> game_state list \<times> game_score list"

definition set_derived :: "derived \<Rightarrow> simulation_log \<Rightarrow> simulation_log" where
  "set_derived d lg =
     (case d of (a, b, c, gs, sc) \<Rightarrow>
        lg\<lparr>startTime := a, endTime := b, duration := c, gameStateList := gs, gameScoreList := sc\<rparr>)"

definition with_derived :: "derived \<Rightarrow> parse_state \<Rightarrow> parse_state" where
  "with_derived d st = st\<lparr>ps_log := set_derived d (ps_log st)\<rparr>"

text \<open>
  No line decoder reads or writes the derived fields of the log, and none changes
  \<^verbatim>\<open>maxStates\<close>: a line decoder \<open>h\<close> is \<open>framed\<close>.
\<close>

definition framed :: "(string \<Rightarrow> parse_state \<Rightarrow> 'a \<times> parse_state) \<Rightarrow> bool" where
  "framed h \<longleftrightarrow>
     (\<forall>l st d. h l (with_derived d st) = (fst (h l st), with_derived d (snd (h l st))))
     \<and> (\<forall>l st. maxStates (ps_storage (snd (h l st))) = maxStates (ps_storage st))"

section \<open>The ULG decoder\<close>

text \<open>
  A line decoder changes the log and the storage in place, and may throw; the loop that
  calls it catches every exception. So a line decoder is a function from the state to the
  exception, if any, and the state at that moment.
\<close>

subsection \<open>Parameter blocks\<close>

definition param_step :: "(string \<times> jsval) list \<Rightarrow> symbol_node \<Rightarrow> (string \<times> jsval) list" where
  "param_step params child =
     (let vs = sn_values child in
      if length vs < 2 then params
      else if vs ! 1 = ''true'' then obj_set params (vs ! 0) (JBool True)
      else if vs ! 1 = ''false'' then obj_set params (vs ! 0) (JBool False)
      else if charAt (vs ! 1) 0 = [CHR 0x22] then
        obj_set params (vs ! 0) (JStr (slice2 (vs ! 1) 1 (- 1)))
      else obj_set params (vs ! 0) (JNum (parseFloat_str (vs ! 1))))"

definition parseParameters :: "string \<Rightarrow> (string \<times> jsval) list \<Rightarrow> exn + (string \<times> jsval) list" where
  "parseParameters dataLine params =
     (case SymbolTreeParser_parse dataLine of
        Inl e \<Rightarrow> Inl e
      | Inr rootNode \<Rightarrow> Inr (foldl param_step params (sn_children rootNode)))"

definition set_timeStep :: "jsnum \<Rightarrow> log_parser_storage \<Rightarrow> log_parser_storage" where
  "set_timeStep step sto =
     (case partialState sto of
        None \<Rightarrow> sto
      | Some p \<Rightarrow> sto\<lparr>partialState := Some (p\<lparr>timeStep := step\<rparr>)\<rparr>)"

definition ULG_parseServerParamLine :: "sserver_util \<Rightarrow> string \<Rightarrow> parse_state \<Rightarrow> exn option \<times> parse_state" where
  "ULG_parseServerParamLine U dataLine st =
     (let lg1 = (ps_log st)\<lparr>environmentParams := pm_clear (environmentParams (ps_log st))\<rparr> in
      case parseParameters dataLine [] of
        Inl e \<Rightarrow> (Some e, st\<lparr>ps_log := lg1\<rparr>)
      | Inr obj \<Rightarrow>
          (case updateFrequency U (lg1\<lparr>environmentParams := (environmentParams lg1)\<lparr>paramObj := JObj obj\<rparr>\<rparr>) of
             (Some e, lg2) \<Rightarrow> (Some e, st\<lparr>ps_log := lg2\<rparr>)
           | (None, lg2) \<Rightarrow>
               (None, \<lparr>ps_log = lg2,
                       ps_storage = set_timeStep (js_div (Fin 1) (frequency lg2)) (ps_storage st)\<rparr>)))"

definition ULG_parsePlayerParamLine :: "string \<Rightarrow> parse_state \<Rightarrow> exn option \<times> parse_state" where
  "ULG_parsePlayerParamLine dataLine st =
     (let lg1 = (ps_log st)\<lparr>playerParams := pm_clear (playerParams (ps_log st))\<rparr> in
      case parseParameters dataLine [] of
        Inl e \<Rightarrow> (Some e, st\<lparr>ps_log := lg1\<rparr>)
      | Inr obj \<Rightarrow>
          (None, st\<lparr>ps_log := lg1\<lparr>playerParams := (playerParams lg1)\<lparr>paramObj := JObj obj\<rparr>\<rparr>\<rparr>))"

definition ULG_parsePlayerTypeLine :: "sserver_util \<Rightarrow> string \<Rightarrow> parse_state \<Rightarrow> exn option \<times> parse_state" where
  "ULG_parsePlayerTypeLine U dataLine st =
     (case parseParameters dataLine [] of
        Inl e \<Rightarrow> (Some e, st)
      | Inr playerType \<Rightarrow>
          (case map_of playerType (PlayerType2D_ID U) of
             Some (JNum typeIdx) \<Rightarrow>
               (None, st\<lparr>ps_log := (ps_log st)
                  \<lparr>playerTypes := (playerTypes (ps_log st))
                      (typeIdx := Some \<lparr>pm_ref = log_fresh (ps_log st), paramObj = JObj playerType\<rparr>),
                   log_fresh := Suc (log_fresh (ps_log st))\<rparr>\<rparr>)
           | _ \<Rightarrow> (None, st)))"

subsection \<open>Team and play-mode lines\<close>

text \<open>\<^verbatim>\<open>storage.partialState.appendTo(log.states)\<close> on the pair of log and storage.\<close>

definition append_partial :: "parse_state \<Rightarrow> bool \<times> parse_state" where
  "append_partial st =
     (case partialState (ps_storage st) of
        None \<Rightarrow> (False, st)
      | Some p \<Rightarrow>
          (case appendTo p (states (ps_log st)) of
             (created, p', sts) \<Rightarrow>
               (created, \<lparr>ps_log = (ps_log st)\<lparr>states := sts\<rparr>,
                          ps_storage = (ps_storage st)\<lparr>partialState := Some p'\<rparr>\<rparr>)))"

definition upd_partial :: "(partial_world_state \<Rightarrow> partial_world_state) \<Rightarrow> parse_state \<Rightarrow> parse_state" where
  "upd_partial f st =
     (case partialState (ps_storage st) of
        None \<Rightarrow> st
      | Some p \<Rightarrow> st\<lparr>ps_storage := (ps_storage st)\<lparr>partialState := Some (f p)\<rparr>\<rparr>)"

definition ULG_parsePlaymodeLine :: "string \<Rightarrow> parse_state \<Rightarrow> exn option \<times> parse_state" where
  "ULG_parsePlaymodeLine dataLine st =
     (if partialState (ps_storage st) = None then (None, st)
      else case SymbolTreeParser_parse dataLine of
        Inl e \<Rightarrow> (Some e, st)
      | Inr rootNode \<Rightarrow>
          (let vs = sn_values rootNode in
           if length vs > 2 then
             (None, upd_partial (setPlaymode (vs ! 2))
                (upd_partial (setGameTime (js_div (parseInt (nth_opt vs 1) 10) (Fin 10)))
                   (snd (append_partial st))))
           else (None, st)))"

definition ULG_parseTeamLine :: "string \<Rightarrow> parse_state \<Rightarrow> exn option \<times> parse_state" where
  "ULG_parseTeamLine dataLine st =
     (if partialState (ps_storage st) = None then (None, st)
      else case SymbolTreeParser_parse dataLine of
        Inl e \<Rightarrow> (Some e, st)
      | Inr rootNode \<Rightarrow>
          (let vs = sn_values rootNode in
           if length vs > 5 then
             (let pen = (\<lambda>i. if length vs > 9 then parseInt (nth_opt vs i) 10 else Fin 0);
                  st1 = st\<lparr>ps_log := (ps_log st)
                          \<lparr>leftTeam := set_name (leftTeam (ps_log st)) (vs ! 2),
                           rightTeam := set_name (rightTeam (ps_log st)) (vs ! 3)\<rparr>\<rparr>
              in (None, upd_partial
                    (setScore (parseInt (nth_opt vs 4) 10) (parseInt (nth_opt vs 5) 10)
                       (pen 6) (pen 7) (pen 8) (pen 9))
                    (upd_partial (setGameTime (js_div (parseInt (nth_opt vs 1) 10) (Fin 10)))
                       (snd (append_partial st1)))))
           else (None, st)))"

subsection \<open>Show lines\<close>

text \<open>
  The angle arithmetic of the rendering library and of \<^verbatim>\<open>JsMath\<close>:
  \<^verbatim>\<open>toRad(deg) = deg * (Math.PI / 180)\<close>, and \<^verbatim>\<open>setFromAxisAngle(axis, angle)\<close>, which
  sets the quaternion to \<open>(axis * sin (angle / 2), cos (angle / 2))\<close>.
\<close>

definition PIby180 :: jsnum where
  "PIby180 = Fin (pi / 180)"

definition toRad :: "jsnum \<Rightarrow> jsnum" where
  "toRad deg = js_mul deg PIby180"

fun Math_sin :: "jsnum \<Rightarrow> jsnum" where
  "Math_sin (Fin a) = Fin (sin a)"
| "Math_sin _ = NaN"

fun Math_cos :: "jsnum \<Rightarrow> jsnum" where
  "Math_cos (Fin a) = Fin (cos a)"
| "Math_cos _ = NaN"

definition setFromAxisAngle :: "jsnum \<times> jsnum \<times> jsnum \<Rightarrow> jsnum \<Rightarrow> jsnum \<times> jsnum \<times> jsnum \<times> jsnum" where
  "setFromAxisAngle axis angle =
     (case axis of (ax, ay, az) \<Rightarrow>
        (let halfAngle = js_div angle (Fin 2); sn = Math_sin halfAngle
         in (js_mul ax sn, js_mul ay sn, js_mul az sn, Math_cos halfAngle)))"

definition ULG_parseBallState :: "symbol_node \<Rightarrow> partial_world_state \<Rightarrow> partial_world_state" where
  "ULG_parseBallState node p =
     (let vs = sn_values node in
      if length vs < 2 then p
      else p\<lparr>ballState := encodeObjectState (parseFloat_str (vs ! 0)) (Fin (2 / 10))
               (parseFloat_str (vs ! 1)) (Fin 0) (Fin 0) (Fin 0) (Fin 1)\<rparr>)"

text \<open>\<^verbatim>\<open>if (values.length > i) agentData[k] = v\<close>\<close>

definition set_if :: "bool \<Rightarrow> nat \<Rightarrow> jsnum \<Rightarrow> jsnum option list \<Rightarrow> jsnum option list" where
  "set_if c k v dat = (if c then array_set dat (num (int k)) v else dat)"

definition agent_data_step :: "sserver_util \<Rightarrow> jsnum option list \<Rightarrow> symbol_node \<Rightarrow> jsnum option list" where
  "agent_data_step U dat child =
     (let vs = sn_values child; n = length vs; pf = (\<lambda>i. parseFloat (nth_opt vs i));
          pint = (\<lambda>i. parseInt (nth_opt vs i) 10)
      in if n > 0 then
           (if vs ! 0 = ''v'' then dat
            else if vs ! 0 = ''s'' then
              set_if (n > 4) (STAMINA_CAPACITY U) (pf 4)
                (set_if (n > 3) (STAMINA_RECOVERY U) (pf 3)
                  (set_if (n > 2) (STAMINA_EFFORT U) (pf 2)
                    (set_if (n > 1) (STAMINA U) (pf 1) dat)))
            else if vs ! 0 = ''f'' then
              (if n > 2 then
                 set_if True (FOCUS_UNUM U) (pint 2)
                   (set_if True (FOCUS_SIDE U) (if vs ! 1 = ''l'' then Fin (- 1) else Fin 1) dat)
               else dat)
            else if vs ! 0 = ''c'' then
              set_if (n > 11) (ATTENTION_COUNT U) (pint 11)
                (set_if (n > 10) (POINT_TO_COUNT U) (pint 10)
                  (set_if (n > 9) (TACKLE_COUNT U) (pint 9)
                    (set_if (n > 8) (SAY_COUNT U) (pint 8)
                      (set_if (n > 7) (VIEW_COUNT U) (pint 7)
                        (set_if (n > 6) (TURN_NECK_COUNT U) (pint 6)
                          (set_if (n > 5) (MOVE_COUNT U) (pint 5)
                            (set_if (n > 4) (CATCH_COUNT U) (pint 4)
                              (set_if (n > 3) (TURN_COUNT U) (pint 3)
                                (set_if (n > 2) (DASH_COUNT U) (pint 2)
                                  (set_if (n > 1) (KICK_COUNT U) (pint 1) dat))))))))))
            else dat)
         else dat)"

text \<open>
  \<^verbatim>\<open>parseAgentState(node, sserverLog, teamDescription, teamStates)\<close>: the team
  description and the array of agent states afterwards. The caller has checked that the
  node has a first child.
\<close>

definition ULG_parseAgentState :: "sserver_util \<Rightarrow> symbol_node \<Rightarrow> simulation_log \<Rightarrow> team_description
    \<Rightarrow> state_arr option list \<Rightarrow> team_description \<times> state_arr option list" where
  "ULG_parseAgentState U node lg team teamStates =
     (let vs = sn_values node in
      if length vs < 7 then (team, teamStates)
      else
        (let playerNo = parseInt (nth_opt (sn_values (hd (sn_children node))) 1) 10;
             typeIdx = parseInt (nth_opt vs 0) 10;
             flags = parseInt (nth_opt vs 1) 16;
             team1 = snd (addAgent team playerNo (playerTypes lg typeIdx));
             quat = setFromAxisAngle (Fin 0, Fin 1, Fin 0) (toRad (js_neg (parseFloat_str (vs ! 6))));
             jointData = (if length vs > 7 then [Some (toRad (js_neg (parseFloat_str (vs ! 7))))] else []);
             agentData = foldl (agent_data_step U) [] (tl (sn_children node))
         in (team1,
             array_set teamStates playerNo
               (encodeAgentState (num (int (getRecentTypeIdx team1 playerNo))) flags
                  (parseFloat_str (vs ! 2)) (Fin 0) (parseFloat_str (vs ! 3))
                  (fst quat) (fst (snd quat)) (fst (snd (snd quat))) (snd (snd (snd quat)))
                  jointData agentData))))"

definition show_child_step :: "sserver_util \<Rightarrow> parse_state \<Rightarrow> symbol_node \<Rightarrow> parse_state" where
  "show_child_step U st childNode =
     (case partialState (ps_storage st) of
        None \<Rightarrow> st
      | Some p \<Rightarrow>
          (if length (sn_children childNode) > 0 then
             (let tag = nth_opt (sn_values (hd (sn_children childNode))) 0 in
              if tag = Some ''b'' then upd_partial (ULG_parseBallState childNode) st
              else if tag = Some ''l'' then
                (case ULG_parseAgentState U childNode (ps_log st) (leftTeam (ps_log st)) (leftAgentStates p) of
                   (team, arr) \<Rightarrow>
                     upd_partial (\<lambda>q. q\<lparr>leftAgentStates := arr\<rparr>)
                       (st\<lparr>ps_log := (ps_log st)\<lparr>leftTeam := team\<rparr>\<rparr>))
              else if tag = Some ''r'' then
                (case ULG_parseAgentState U childNode (ps_log st) (rightTeam (ps_log st)) (rightAgentStates p) of
                   (team, arr) \<Rightarrow>
                     upd_partial (\<lambda>q. q\<lparr>rightAgentStates := arr\<rparr>)
                       (st\<lparr>ps_log := (ps_log st)\<lparr>rightTeam := team\<rparr>\<rparr>))
              else st)
           else st))"

definition ULG_parseShowLine :: "sserver_util \<Rightarrow> string \<Rightarrow> parse_state \<Rightarrow> exn option \<times> parse_state" where
  "ULG_parseShowLine U dataLine st =
     (if partialState (ps_storage st) = None then (None, st)
      else case SymbolTreeParser_parse dataLine of
        Inl e \<Rightarrow> (Some e, st)
      | Inr rootNode \<Rightarrow>
          (let vs = sn_values rootNode in
           if length vs > 1 then
             (None, foldl (show_child_step U)
                (upd_partial (setGameTime (js_div (parseInt (nth_opt vs 1) 10) (Fin 10)))
                   (snd (append_partial st)))
                (sn_children rootNode))
           else (None, st)))"

subsection \<open>The body pass\<close>

text \<open>
  One line of the body: the state afterwards and whether the line counts as a new state
  (a show line whose decoder returned without an exception).
\<close>

definition ULG_line :: "sserver_util \<Rightarrow> string \<Rightarrow> parse_state \<Rightarrow> bool \<times> parse_state" where
  "ULG_line U dataLine st =
     (if take 14 dataLine = ''(server_param '' then (False, snd (ULG_parseServerParamLine U dataLine st))
      else if take 14 dataLine = ''(player_param '' then (False, snd (ULG_parsePlayerParamLine dataLine st))
      else if take 13 dataLine = ''(player_type '' then (False, snd (ULG_parsePlayerTypeLine U dataLine st))
      else if take 6 dataLine = ''(team '' then (False, snd (ULG_parseTeamLine dataLine st))
      else if take 10 dataLine = ''(playmode '' then (False, snd (ULG_parsePlaymodeLine dataLine st))
      else if take 5 dataLine = ''(msg '' then (False, st)
      else if take 6 dataLine = ''(draw '' then (False, st)
      else if take 6 dataLine = ''(show '' then
        (case ULG_parseShowLine U dataLine st of (e, st') \<Rightarrow> (e = None, st'))
      else (False, st))"

text \<open>
  The loop of a body pass, the same in both decoders:
  \<^verbatim>\<open>while (!!line && newStatesCnt < storage.maxStates) { try { .. } catch (ex) {}; line = iterator.next(); }\<close>.
  \<open>h\<close> decodes one line. The result is the line, the cursor, the state and the counter at
  the exit of the loop, and the lines decoded by this loop, in order, each with whether it
  was counted as a new state. The loop ends because every line that \<^verbatim>\<open>next\<close> yields moves
  the cursor forward.
\<close>

lemma regExp_exec_Some:
  assumes "regExp_exec s i = (Some t, li)"
  shows "i < li \<and> li \<le> length s \<and> t \<noteq> []"
proof -
  define j where "j = i + length (takeWhile is_eol (drop i s))"
  define tok where "tok = takeWhile (\<lambda>c. \<not> is_eol c) (drop j s)"
  from assms have ne: "tok \<noteq> []" and t: "t = tok" and li: "li = j + length tok"
    by (auto simp: regExp_exec_def Let_def j_def tok_def split: if_splits)
  have "length tok \<le> length (drop j s)"
    unfolding tok_def by (rule length_takeWhile_le)
  then have a: "j + length tok \<le> length s" using ne by (cases "j \<le> length s") auto
  have b: "i \<le> j" by (simp add: j_def)
  have c: "0 < length tok" using ne by simp
  from b c have "i < j + length tok" by linarith
  with a show ?thesis using t li ne by simp
qed

lemma it_next_Some_less:
  assumes "it_next it = (Some l, it')"
  shows "length (it_data it') - it_lastIndex it' < length (it_data it) - it_lastIndex it"
proof -
  obtain tokens li where ex: "regExp_exec (it_data it) (it_lastIndex it) = (tokens, li)"
    by (cases "regExp_exec (it_data it) (it_lastIndex it)")
  from assms ex have tk: "tokens = Some l" and it': "it' = it\<lparr>it_lastIndex := li, it_line := Some l\<rparr>"
    by (auto simp: it_next_def Let_def split: if_splits option.splits)
  from regExp_exec_Some[OF ex[unfolded tk]] show ?thesis
    by (simp add: it') linarith
qed

lemma it_next_None_same:
  "it_next it = (None, it') \<Longrightarrow> it_lastIndex it' = it_lastIndex it \<and> it_data it' = it_data it"
  by (auto simp: it_next_def Let_def split: if_splits option.splits prod.splits)

lemma body_loop_measure:
  assumes "it_next it = (line', it')"
  shows "2 * (length (it_data it') - it_lastIndex it') + (if line' = None then 0 else 1)
         < 2 * (length (it_data it) - it_lastIndex it) + 1"
proof (cases line')
  case None
  with it_next_None_same[of it it'] assms show ?thesis by simp
next
  case (Some l')
  with it_next_Some_less[of it l' it'] assms show ?thesis by simp
qed

function body_loop :: "(string \<Rightarrow> parse_state \<Rightarrow> bool \<times> parse_state) \<Rightarrow> string option \<Rightarrow> data_iterator
    \<Rightarrow> parse_state \<Rightarrow> nat \<Rightarrow> (string \<times> bool) list
    \<Rightarrow> string option \<times> data_iterator \<times> parse_state \<times> nat \<times> (string \<times> bool) list" where
  "body_loop h line it st cnt decoded =
     (case line of
        None \<Rightarrow> (line, it, st, cnt, decoded)
      | Some l \<Rightarrow>
          (if cnt < maxStates (ps_storage st) then
             (case h l st of
                (counts, st') \<Rightarrow>
                  (case it_next it of
                     (line', it') \<Rightarrow>
                       body_loop h line' it' st' (if counts then cnt + 1 else cnt)
                         (decoded @ [(l, counts)])))
           else (line, it, st, cnt, decoded)))"
  by pat_completeness auto
termination
  by (relation "measure (\<lambda>(h, line, it, st, cnt, decoded).
        2 * (length (it_data it) - it_lastIndex it) + (if line = None then 0 else 1))")
     (auto dest: body_loop_measure body_loop_measure[OF sym])

declare body_loop.simps [simp del]

text \<open>
  A body pass (\<^verbatim>\<open>parseULGBody\<close>, \<^verbatim>\<open>parseReplayBody\<close>) around the loop. The result is the
  cursor and the state afterwards, whether the pass has scheduled a continuation
  (\<^verbatim>\<open>setTimeout\<close>), and the lines it has decoded.
\<close>

definition parse_body :: "(string \<Rightarrow> parse_state \<Rightarrow> bool \<times> parse_state) \<Rightarrow> data_iterator \<Rightarrow> parse_state
    \<Rightarrow> data_iterator \<times> parse_state \<times> bool \<times> (string \<times> bool) list" where
  "parse_body h it st =
     (case (if it_line it = None then it_next it else (it_line it, it)) of
        (line, it1) \<Rightarrow>
          (case body_loop h line it1 st 0 [] of
             (line2, it2, st2, newStatesCnt, decoded) \<Rightarrow>
               (let st3 = (if newStatesCnt > 0 then st2\<lparr>ps_log := onStatesUpdated (ps_log st2)\<rparr> else st2)
                in if line2 \<noteq> None then (it2, st3, True, decoded)
                   else if \<not> it_partialData it2 then
                     (it_dispose it2,
                      (let st4 = snd (append_partial st3) in st4\<lparr>ps_log := finalize (ps_log st4)\<rparr>),
                      False, decoded)
                   else (it2, st3, False, decoded))))"

text \<open>
  The state after a pass, from the state behind the last decoded line: the derived fields
  are recomputed when a new state was counted, and the log is completed when the pass has
  reached the end of a complete text.
\<close>

definition pass_state :: "parse_state \<Rightarrow> bool \<Rightarrow> bool \<Rightarrow> parse_state" where
  "pass_state st2 counted finished =
     (let st3 = (if counted then st2\<lparr>ps_log := onStatesUpdated (ps_log st2)\<rparr> else st2)
      in if finished then (let st4 = snd (append_partial st3) in st4\<lparr>ps_log := finalize (ps_log st4)\<rparr>)
         else st3)"

definition parseULGBody :: "sserver_util \<Rightarrow> data_iterator \<Rightarrow> parse_state
    \<Rightarrow> data_iterator \<times> parse_state \<times> bool \<times> (string \<times> bool) list" where
  "parseULGBody U it st = parse_body (ULG_line U) it st"

subsection \<open>The decoder object\<close>

text \<open>
  The three fields of a decoder, and whether a continuation of a body pass is waiting in
  the task queue of the host. A call of \<^verbatim>\<open>parse\<close> returns a truth value or throws, and
  changes the decoder in both cases.
\<close>

record log_parser =
  lp_iterator :: "data_iterator option"
  lp_log :: "simulation_log option"
  lp_storage :: "log_parser_storage option"
  lp_scheduled :: bool

definition new_parser :: log_parser where
  "new_parser = \<lparr>lp_iterator = None, lp_log = None, lp_storage = None, lp_scheduled = False\<rparr>"

definition after_body :: "log_parser \<Rightarrow> data_iterator \<times> parse_state \<times> bool \<times> (string \<times> bool) list
    \<Rightarrow> log_parser" where
  "after_body P r =
     (case r of (it, st, sched, decoded) \<Rightarrow>
        \<lparr>lp_iterator = Some it, lp_log = Some (ps_log st), lp_storage = Some (ps_storage st),
         lp_scheduled = (lp_scheduled P \<or> sched)\<rparr>)"

text \<open>The end of both \<^verbatim>\<open>parse\<close> methods: the check for an empty log and the result.\<close>

definition parse_result :: "string \<Rightarrow> bool \<Rightarrow> bool \<Rightarrow> log_parser \<Rightarrow> (exn + bool) \<times> log_parser" where
  "parse_result msg partial wasEmpty P =
     (let empty = (case lp_log P of None \<Rightarrow> True | Some lg \<Rightarrow> states lg = [])
      in if \<not> partial \<and> empty then (Inl (ParserError msg), P)
         else (Inr (wasEmpty \<and> \<not> empty), P))"

text \<open>The branch of both \<^verbatim>\<open>parse\<close> methods that continues with more data.\<close>

definition parse_progress :: "(string \<Rightarrow> parse_state \<Rightarrow> bool \<times> parse_state) \<Rightarrow> string \<Rightarrow> log_parser
    \<Rightarrow> data_iterator \<Rightarrow> simulation_log \<Rightarrow> log_parser_storage \<Rightarrow> string \<Rightarrow> bool \<Rightarrow> bool
    \<Rightarrow> (exn + bool) \<times> log_parser" where
  "parse_progress h msg P it lg sto d partial incremental =
     (case it_update it d partial incremental of
        (restart, it1) \<Rightarrow>
          parse_result msg partial (states lg = [])
            (if restart then after_body P (parse_body h it1 \<lparr>ps_log = lg, ps_storage = sto\<rparr>)
             else P\<lparr>lp_iterator := Some it1\<rparr>))"

definition new_SServerLog :: "sserver_util \<Rightarrow> jsnum \<Rightarrow> simulation_log" where
  "new_SServerLog U ver = new_SimulationLog U TWOD ver"

definition ULG_parse :: "sserver_util \<Rightarrow> log_parser \<Rightarrow> string \<Rightarrow> bool \<Rightarrow> bool \<Rightarrow> (exn + bool) \<times> log_parser" where
  "ULG_parse U P d partial incremental =
     (case (lp_iterator P, lp_log P, lp_storage P) of
        (Some it, Some lg, Some sto) \<Rightarrow>
          parse_progress (ULG_line U) ''Empty SServer log file!'' P it lg sto d partial incremental
      | _ \<Rightarrow>
          (case it_next (new_DataIterator d partial) of
             (line, it1) \<Rightarrow>
               (if line = None \<or>
                   (charAt (the line) 0 \<noteq> ''U'' \<and> charAt (the line) 1 \<noteq> ''L'' \<and> charAt (the line) 2 \<noteq> ''G'')
                then (Inl (ParserError ''Failed parsing ULG log file - no ULG header found!''),
                      P\<lparr>lp_iterator := Some it1\<rparr>)
                else
                  (let lg = new_SServerLog U (parseInt_str 10 (slice1 (the line) 3));
                       sto = new_LogParserStorage
                         \<lparr>partialState := Some (new_PartialWorldState (Fin 0) (Fin (1 / 10)) (Fin 0)),
                          maxStates := 100\<rparr>
                   in parse_result ''Empty SServer log file!'' partial True
                        (after_body P
                           (parseULGBody U (snd (it_next it1)) \<lparr>ps_log = lg, ps_storage = sto\<rparr>))))))"

text \<open>
  The continuation that a body pass has scheduled runs the pass again on the same cursor,
  log and storage.
\<close>

definition run_continuation :: "(string \<Rightarrow> parse_state \<Rightarrow> bool \<times> parse_state) \<Rightarrow> log_parser \<Rightarrow> log_parser" where
  "run_continuation h P =
     (case (lp_iterator P, lp_log P, lp_storage P) of
        (Some it, Some lg, Some sto) \<Rightarrow>
          after_body (P\<lparr>lp_scheduled := False\<rparr>) (parse_body h it \<lparr>ps_log = lg, ps_storage = sto\<rparr>)
      | _ \<Rightarrow> P\<lparr>lp_scheduled := False\<rparr>)"

text \<open>
  The lines \<open>ls\<close> decoded one after the other from the state \<open>st\<close>, each with what the line
  decoder says, at that moment, on whether it counts as a new state.
\<close>

fun run_flags :: "(string \<Rightarrow> parse_state \<Rightarrow> bool \<times> parse_state) \<Rightarrow> parse_state \<Rightarrow> string list
    \<Rightarrow> (string \<times> bool) list" where
  "run_flags h st [] = []"
| "run_flags h st (l # ls) = (l, fst (h l st)) # run_flags h (snd (h l st)) ls"

text \<open>
  What a pass does with the lines \<open>todo it\<close> that are waiting: it decodes a prefix of them,
  one after the other; it counts the lines for which the line decoder says so, at most \<open>N\<close>
  of them; it schedules a continuation exactly when lines are left, and then has counted
  exactly \<open>N\<close>; the limit itself stays as it is.
\<close>

definition pass_limited :: "(string \<Rightarrow> parse_state \<Rightarrow> bool \<times> parse_state) \<Rightarrow> nat \<Rightarrow> data_iterator
    \<Rightarrow> parse_state \<Rightarrow> data_iterator \<times> parse_state \<times> bool \<times> (string \<times> bool) list \<Rightarrow> bool" where
  "pass_limited h N it st r =
     (case r of (it', st', sched, decoded) \<Rightarrow>
        take (length decoded) (todo it) = map fst decoded
        \<and> decoded = run_flags h st (map fst decoded)
        \<and> length (filter snd decoded) \<le> N
        \<and> sched = (length decoded < length (todo it))
        \<and> (sched \<longrightarrow> length (filter snd decoded) = N)
        \<and> maxStates (ps_storage st') = N)"

text \<open>The limit \<^verbatim>\<open>storage.maxStates\<close> of a decoder, once it has a storage.\<close>

definition pass_limit :: "log_parser \<Rightarrow> nat option" where
  "pass_limit P = map_option maxStates (lp_storage P)"

section \<open>The Replay decoder\<close>

text \<open>
  \<^verbatim>\<open>JSON.parse\<close> is a function of the host; the decoders take it as the argument \<open>J\<close>,
  with \<open>None\<close> for a thrown syntax error.
\<close>

type_synonym json_parser = "string \<Rightarrow> jsval option"

subsection \<open>General lines\<close>

definition parseEnvironmentParams :: "sserver_util \<Rightarrow> json_parser \<Rightarrow> string \<Rightarrow> parse_state
    \<Rightarrow> exn option \<times> parse_state" where
  "parseEnvironmentParams U J dataLine st =
     (let lg1 = (case J (slice1 dataLine 3) of
                   None \<Rightarrow> ps_log st
                 | Some newParams \<Rightarrow>
                     (ps_log st)\<lparr>environmentParams :=
                        (pm_clear (environmentParams (ps_log st)))\<lparr>paramObj := newParams\<rparr>\<rparr>)
      in case updateFrequency U lg1 of
           (Some e, lg2) \<Rightarrow> (Some e, st\<lparr>ps_log := lg2\<rparr>)
         | (None, lg2) \<Rightarrow>
             (None, \<lparr>ps_log = lg2,
                     ps_storage = set_timeStep (js_div (Fin 1) (frequency lg2)) (ps_storage st)\<rparr>))"

definition parsePlayerParams :: "json_parser \<Rightarrow> string \<Rightarrow> parse_state \<Rightarrow> exn option \<times> parse_state" where
  "parsePlayerParams J dataLine st =
     (case J (slice1 dataLine 3) of
        None \<Rightarrow> (None, st)
      | Some newParams \<Rightarrow>
          (None, st\<lparr>ps_log := (ps_log st)\<lparr>playerParams :=
             (pm_clear (playerParams (ps_log st)))\<lparr>paramObj := newParams\<rparr>\<rparr>\<rparr>))"

definition parsePlayerTypeParams :: "json_parser \<Rightarrow> string \<Rightarrow> parse_state \<Rightarrow> exn option \<times> parse_state" where
  "parsePlayerTypeParams J dataLine st =
     (let idx = indexOf_sp dataLine 4 in
      if idx > 3 \<and> idx < 10 then
        (case J (slice1 dataLine (idx + 1)) of
           None \<Rightarrow> (None, st)
         | Some v \<Rightarrow>
             (None, st\<lparr>ps_log := (ps_log st)
                \<lparr>playerTypes := (playerTypes (ps_log st))
                    (parseInt_str 10 (slice2 dataLine 3 idx) :=
                       Some \<lparr>pm_ref = log_fresh (ps_log st), paramObj = v\<rparr>),
                 log_fresh := Suc (log_fresh (ps_log st))\<rparr>\<rparr>))
      else (None, st))"

definition Replay_parseTeamLine :: "string \<Rightarrow> parse_state \<Rightarrow> exn option \<times> parse_state" where
  "Replay_parseTeamLine dataLine st =
     (let line = split_sp dataLine in
      if length line < 3 then (None, st)
      else (None, st\<lparr>ps_log := (ps_log st)
              \<lparr>leftTeam := set_name (leftTeam (ps_log st)) (line ! 1),
               rightTeam := set_name (rightTeam (ps_log st)) (line ! 2)\<rparr>\<rparr>))"

definition parseStateLine :: "string \<Rightarrow> parse_state \<Rightarrow> bool \<times> parse_state" where
  "parseStateLine dataLine st =
     (let line = split_sp dataLine in
      if length line < 5 then (False, st)
      else
        (let r = (case partialState (ps_storage st) of
                    Some p \<Rightarrow> append_partial st
                  | None \<Rightarrow>
                      (False, st\<lparr>ps_storage := (ps_storage st)\<lparr>partialState :=
                         Some (new_PartialWorldState (Fin 0)
                                 (js_div (Fin 1) (frequency (ps_log st))) (Fin 0))\<rparr>\<rparr>));
             gt = parseFloat_str (line ! 1);
             gt' = (if js_eq (version (ps_log st)) (Fin 0) then js_div gt (Fin 10) else gt);
             pint = (\<lambda>i. parseInt (nth_opt line i) 10)
         in (fst r,
             upd_partial
               (if length line > 8
                then setScore (pint 3) (pint 4) (pint 5) (pint 6) (pint 7) (pint 8)
                else setScore (pint 3) (pint 4) (Fin 0) (Fin 0) (Fin 0) (Fin 0))
               (upd_partial (setPlaymode (line ! 2))
                  (upd_partial (setGameTime gt') (snd r))))))"

subsection \<open>Ball lines\<close>

definition parseBallState_2D :: "string \<Rightarrow> partial_world_state option \<Rightarrow> partial_world_state option" where
  "parseBallState_2D dataLine partialSt =
     (let line = split_sp dataLine in
      case partialSt of
        None \<Rightarrow> None
      | Some p \<Rightarrow>
          (if length line < 3 then Some p
           else Some (p\<lparr>ballState := encodeObjectState (parseFloat_str (line ! 1)) (Fin (2 / 10))
                          (parseFloat_str (line ! 2)) (Fin 0) (Fin 0) (Fin 0) (Fin 1)\<rparr>)))"

definition parseBallState_V0_3D :: "string \<Rightarrow> partial_world_state option \<Rightarrow> partial_world_state option" where
  "parseBallState_V0_3D dataLine partialSt =
     (let line = split_sp dataLine; pint = (\<lambda>i. parseInt (nth_opt line i) 10) in
      case partialSt of
        None \<Rightarrow> None
      | Some p \<Rightarrow>
          (if length line < 8 then Some p
           else Some (p\<lparr>ballState := encodeObjectState
                  (js_div (pint 1) (Fin 1000)) (js_div (pint 3) (Fin 1000))
                  (js_div (js_neg (pint 2)) (Fin 1000))
                  (js_div (pint 5) (Fin 1000)) (js_div (pint 7) (Fin 1000))
                  (js_div (js_neg (pint 6)) (Fin 1000)) (js_div (pint 4) (Fin 1000))\<rparr>)))"

definition parseBallState_V1_3D :: "string \<Rightarrow> partial_world_state option \<Rightarrow> partial_world_state option" where
  "parseBallState_V1_3D dataLine partialSt =
     (let line = split_sp dataLine; pf = (\<lambda>i. parseFloat (nth_opt line i)) in
      case partialSt of
        None \<Rightarrow> None
      | Some p \<Rightarrow>
          (if length line < 8 then Some p
           else Some (p\<lparr>ballState := encodeObjectState
                  (pf 1) (pf 3) (js_neg (pf 2)) (pf 5) (pf 7) (js_neg (pf 6)) (pf 4)\<rparr>)))"

subsection \<open>Agent lines\<close>

text \<open>
  The team description, index list and array of agent states of one side, as the agent
  decoders select them by \<^verbatim>\<open>leftSide\<close>, and the write-back of the three.
\<close>

definition side_team :: "bool \<Rightarrow> parse_state \<Rightarrow> team_description" where
  "side_team leftSide st = (if leftSide then leftTeam (ps_log st) else rightTeam (ps_log st))"

definition side_indexList :: "bool \<Rightarrow> parse_state \<Rightarrow> jsnum \<Rightarrow> nat option" where
  "side_indexList leftSide st =
     (if leftSide then leftIndexList (ps_storage st) else rightIndexList (ps_storage st))"

definition side_agentStates :: "bool \<Rightarrow> partial_world_state \<Rightarrow> state_arr option list" where
  "side_agentStates leftSide p = (if leftSide then leftAgentStates p else rightAgentStates p)"

definition set_side :: "bool \<Rightarrow> team_description \<Rightarrow> (jsnum \<Rightarrow> nat option) \<Rightarrow> state_arr option list
    \<Rightarrow> parse_state \<Rightarrow> parse_state" where
  "set_side leftSide team indexList agentStates st =
     (if leftSide then
        upd_partial (\<lambda>p. p\<lparr>leftAgentStates := agentStates\<rparr>)
          \<lparr>ps_log = (ps_log st)\<lparr>leftTeam := team\<rparr>,
           ps_storage = (ps_storage st)\<lparr>leftIndexList := indexList\<rparr>\<rparr>
      else
        upd_partial (\<lambda>p. p\<lparr>rightAgentStates := agentStates\<rparr>)
          \<lparr>ps_log = (ps_log st)\<lparr>rightTeam := team\<rparr>,
           ps_storage = (ps_storage st)\<lparr>rightIndexList := indexList\<rparr>\<rparr>)"

text \<open>An enumeration constant of the missing module as a number, and \<^verbatim>\<open>a | b\<close>.\<close>

definition flag_num :: "32 word \<Rightarrow> jsnum" where
  "flag_num w = num (sint w)"

definition parseAgentState_V0_2D :: "sserver_util \<Rightarrow> string \<Rightarrow> parse_state \<Rightarrow> bool \<Rightarrow> exn option \<times> parse_state" where
  "parseAgentState_V0_2D U dataLine st leftSide =
     (let line = split_sp dataLine in
      case partialState (ps_storage st) of
        None \<Rightarrow> (None, st)
      | Some p \<Rightarrow>
          (if length line < 5 then (None, st)
           else
             (let playerNo = parseInt_str 10 (line ! 1);
                  flags = (if line ! 0 = ''L'' \<or> line ! 0 = ''R'' then flag_num (STAND U OR GOALIE U)
                           else flag_num (STAND U));
                  angle = parseFloat_str (line ! 4);
                  quat = setFromAxisAngle (Fin 0, Fin 1, Fin 0) (toRad (js_neg angle));
                  angle2 = js_sub (parseFloat (nth_opt line 5)) angle;
                  angle3 = (if js_gt angle2 (Fin 180) then js_sub angle2 (Fin 360)
                            else if js_lt angle2 (Fin (- 180)) then js_add angle2 (Fin 360)
                            else angle2);
                  jointData = (if length line > 6 then [Some (toRad (js_neg angle3))] else []);
                  agentData = (if length line > 6
                               then array_set [] (num (int (STAMINA U))) (parseFloat_str (slice1 (line ! 6) 1))
                               else []);
                  newState = encodeAgentState (Fin 0) flags
                    (parseFloat_str (line ! 2)) (Fin 0) (parseFloat_str (line ! 3))
                    (fst quat) (fst (snd quat)) (fst (snd (snd quat))) (snd (snd (snd quat)))
                    jointData agentData
              in (None,
                  upd_partial
                    (\<lambda>q. if leftSide then q\<lparr>leftAgentStates := array_set (leftAgentStates q) playerNo newState\<rparr>
                          else q\<lparr>rightAgentStates := array_set (rightAgentStates q) playerNo newState\<rparr>)
                    st))))"

text \<open>A run of joint angles: hundredths of a degree to radians.\<close>

definition joint_V0 :: "string \<Rightarrow> jsnum option" where
  "joint_V0 tok = Some (toRad (js_div (parseFloat_str tok) (Fin 100)))"

definition parseAgentState_V0_3D :: "string \<Rightarrow> parse_state \<Rightarrow> bool \<Rightarrow> exn option \<times> parse_state" where
  "parseAgentState_V0_3D dataLine st leftSide =
     (let line = split_sp dataLine in
      case partialState (ps_storage st) of
        None \<Rightarrow> (None, st)
      | Some p \<Rightarrow>
          (if length line < 9 then (None, st)
           else
             (let playerNo = parseInt_str 10 (line ! 1);
                  model = (line ! 0 = ''L'' \<or> line ! 0 = ''R'')
              in if model \<and> length line < 10 then (None, st)
                 else
                   (let dataIdx = (if model then 3 else 2);
                        team = (if model
                                then snd (addAgent (side_team leftSide st) playerNo
                                       (playerTypes (ps_log st) (parseInt_str 10 (slice1 (line ! 2) (- 1)))))
                                else side_team leftSide st);
                        indexList = (if model
                                     then (side_indexList leftSide st)(playerNo := Some (getRecentTypeIdx team playerNo))
                                     else side_indexList leftSide st);
                        modelIdx = (case indexList playerNo of None \<Rightarrow> 0 | Some i \<Rightarrow> i);
                        pint = (\<lambda>i. parseInt (nth_opt line (dataIdx + i)) 10);
                        rest = drop (dataIdx + 7) line;
                        numLegJoints = (if length rest > 22 then 7 else 6);
                        head = take 2 rest;
                        lArmData = take 4 (drop 2 rest);
                        lLegData = take numLegJoints (drop 6 rest);
                        rArmData = take 4 (drop (6 + numLegJoints) rest);
                        rLegData = take numLegJoints (drop (10 + numLegJoints) rest);
                        jointData = map joint_V0 (head @ rArmData @ lArmData @ rLegData @ lLegData)
                    in (None,
                        set_side leftSide team indexList
                          (array_set (side_agentStates leftSide p) playerNo
                             (encodeAgentState (num (int modelIdx)) (Fin 0)
                                (js_div (pint 0) (Fin 1000)) (js_div (pint 2) (Fin 1000))
                                (js_div (js_neg (pint 1)) (Fin 1000))
                                (js_div (pint 4) (Fin 1000)) (js_div (pint 6) (Fin 1000))
                                (js_div (js_neg (pint 5)) (Fin 1000)) (js_div (pint 3) (Fin 1000))
                                jointData []))
                          st)))))"

definition parseJointNode :: "symbol_node \<Rightarrow> jsnum option list \<Rightarrow> bool \<Rightarrow> jsnum option list" where
  "parseJointNode node jointData convert =
     jointData @ map (\<lambda>v. Some (js_mul (parseFloat_str v) (if convert then js_neg PIby180 else PIby180)))
                   (tl (sn_values node))"

definition agent_child_V1 :: "sserver_util \<Rightarrow> bool \<Rightarrow> jsnum option list \<times> jsnum option list \<Rightarrow> symbol_node
    \<Rightarrow> jsnum option list \<times> jsnum option list" where
  "agent_child_V1 U is2D acc child =
     (case acc of (jointData, agentData) \<Rightarrow>
        (if nth_opt (sn_values child) 0 = Some ''j'' then (parseJointNode child jointData is2D, agentData)
         else if nth_opt (sn_values child) 0 = Some ''s'' then
           (jointData, array_set agentData (num (int (STAMINA U))) (parseFloat (nth_opt (sn_values child) 1)))
         else (jointData, agentData)))"

definition parseAgentState_V1 :: "sserver_util \<Rightarrow> string \<Rightarrow> parse_state \<Rightarrow> bool \<Rightarrow> exn option \<times> parse_state" where
  "parseAgentState_V1 U dataLine st leftSide =
     (case SymbolTreeParser_parse (''('' @ dataLine @ '')'') of
        Inl e \<Rightarrow> (Some e, st)
      | Inr rootNode \<Rightarrow>
          (case partialState (ps_storage st) of
             None \<Rightarrow> (None, st)
           | Some p \<Rightarrow>
               (let vs = sn_values rootNode in
                if length vs < 6 then (None, st)
                else
                  (let playerNo = parseInt_str 10 (vs ! 1);
                       model = (vs ! 0 = ''L'' \<or> vs ! 0 = ''R'');
                       team = (if model
                               then snd (addAgent (side_team leftSide st) playerNo
                                      (playerTypes (ps_log st) (parseInt_str 10 (vs ! 2))))
                               else side_team leftSide st);
                       indexList = (if model
                                    then (side_indexList leftSide st)(playerNo := Some (getRecentTypeIdx team playerNo))
                                    else side_indexList leftSide st);
                       modelIdx = (case indexList playerNo of None \<Rightarrow> 0 | Some i \<Rightarrow> i);
                       flagsIdx = (if model then 3 else 2);
                       flags = parseInt (nth_opt vs flagsIdx) 16;
                       pf = (\<lambda>i. parseFloat (nth_opt vs (flagsIdx + 1 + i)));
                       is2D = (log_type (ps_log st) = TWOD);
                       quat2D = setFromAxisAngle (Fin 0, Fin 1, Fin 0) (toRad (js_mul (Fin (- 1)) (pf 2)));
                       jd = foldl (agent_child_V1 U is2D) ([], []) (sn_children rootNode)
                   in (None,
                       set_side leftSide team indexList
                         (array_set (side_agentStates leftSide p) playerNo
                            (if is2D then
                               encodeAgentState (num (int modelIdx)) flags (pf 0) (Fin 0) (pf 1)
                                 (fst quat2D) (fst (snd quat2D)) (fst (snd (snd quat2D)))
                                 (snd (snd (snd quat2D))) (fst jd) (snd jd)
                             else
                               encodeAgentState (num (int modelIdx)) flags (pf 0) (pf 2) (js_neg (pf 1))
                                 (pf 4) (pf 6) (js_neg (pf 5)) (pf 3) (fst jd) (snd jd)))
                         st)))))"

subsection \<open>The body pass\<close>

text \<open>
  The decoders of ball and agent lines that \<^verbatim>\<open>parseReplayBody\<close> selects from the kind and
  the version of the replay at the start of a pass.
\<close>

definition select_parseBallFcn :: "simulation_log \<Rightarrow> string \<Rightarrow> partial_world_state option
    \<Rightarrow> partial_world_state option" where
  "select_parseBallFcn replay =
     (if log_type replay = THREED then
        (if js_eq (version replay) (Fin 0) then parseBallState_V0_3D else parseBallState_V1_3D)
      else parseBallState_2D)"

definition select_parseAgentFcn :: "sserver_util \<Rightarrow> simulation_log \<Rightarrow> string \<Rightarrow> parse_state \<Rightarrow> bool
    \<Rightarrow> exn option \<times> parse_state" where
  "select_parseAgentFcn U replay =
     (if log_type replay = THREED then
        (if js_eq (version replay) (Fin 0) then parseAgentState_V0_3D else parseAgentState_V1 U)
      else if js_gt (version replay) (Fin 0) then parseAgentState_V1 U
      else parseAgentState_V0_2D U)"

definition Replay_line :: "sserver_util \<Rightarrow> json_parser
    \<Rightarrow> (string \<Rightarrow> partial_world_state option \<Rightarrow> partial_world_state option)
    \<Rightarrow> (string \<Rightarrow> parse_state \<Rightarrow> bool \<Rightarrow> exn option \<times> parse_state)
    \<Rightarrow> string \<Rightarrow> parse_state \<Rightarrow> bool \<times> parse_state" where
  "Replay_line U J parseBallFcn parseAgentFcn dataLine st =
     (let c0 = charAt dataLine 0; c1 = charAt dataLine 1 in
      if c0 = ''E'' then
        (if c1 = ''P'' then (False, snd (parseEnvironmentParams U J dataLine st)) else (False, st))
      else if c0 = ''P'' then
        (if c1 = ''P'' then (False, snd (parsePlayerParams J dataLine st))
         else if c1 = ''T'' then (False, snd (parsePlayerTypeParams J dataLine st))
         else (False, st))
      else if c0 = ''T'' then (False, snd (Replay_parseTeamLine dataLine st))
      else if c0 = ''S'' then parseStateLine dataLine st
      else if c0 = ''b'' then
        (False, st\<lparr>ps_storage := (ps_storage st)
                  \<lparr>partialState := parseBallFcn dataLine (partialState (ps_storage st))\<rparr>\<rparr>)
      else if c0 = ''l'' \<or> c0 = ''L'' then (False, snd (parseAgentFcn dataLine st True))
      else if c0 = ''r'' \<or> c0 = ''R'' then (False, snd (parseAgentFcn dataLine st False))
      else (False, st))"

definition parseReplayBody :: "sserver_util \<Rightarrow> json_parser \<Rightarrow> data_iterator \<Rightarrow> parse_state
    \<Rightarrow> data_iterator \<times> parse_state \<times> bool \<times> (string \<times> bool) list" where
  "parseReplayBody U J it st =
     parse_body (Replay_line U J (select_parseBallFcn (ps_log st)) (select_parseAgentFcn U (ps_log st))) it st"

subsection \<open>The header and the decoder object\<close>

definition new_Replay :: "sserver_util \<Rightarrow> SimulationType \<Rightarrow> jsnum \<Rightarrow> simulation_log" where
  "new_Replay U ty ver = new_SimulationLog U ty ver"

text \<open>The default agents 1 to 11 of both sides in a replay of the first 2D format.\<close>

definition add_default_agents :: "simulation_log \<Rightarrow> simulation_log" where
  "add_default_agents replay =
     foldl (\<lambda>lg i. lg\<lparr>leftTeam := snd (addAgent (leftTeam lg) (num (int i)) (playerTypes lg (Fin 0))),
                      rightTeam := snd (addAgent (rightTeam lg) (num (int i)) (playerTypes lg (Fin 0)))\<rparr>)
       replay [1..<12]"

text \<open>\<^verbatim>\<open>switch (parseInt(splitLine[1], 10))\<close> of the world line: a fresh parameter map.\<close>

definition field_params :: "jsnum \<Rightarrow> simulation_log \<Rightarrow> simulation_log" where
  "field_params code replay =
     (let fresh = (\<lambda>ps. replay\<lparr>environmentParams := \<lparr>pm_ref = log_fresh replay, paramObj = JObj ps\<rparr>,
                               log_fresh := Suc (log_fresh replay)\<rparr>)
      in if code = Fin 62 then fresh paramsV62
         else if code = Fin 63 then fresh paramsV63
         else if code = Fin 64 then fresh paramsV64
         else if code = Fin 66 then fresh paramsV66
         else replay)"

text \<open>
  The header part of \<^verbatim>\<open>ReplayParser.parse\<close>, from the first \<^verbatim>\<open>next\<close> to the step over
  the last header line: either the exception with the fields \<^verbatim>\<open>iterator\<close> and \<^verbatim>\<open>replay\<close>
  of the decoder at that moment, or the cursor and the new replay.
\<close>

definition Replay_header :: "sserver_util \<Rightarrow> data_iterator
    \<Rightarrow> (exn \<times> data_iterator \<times> simulation_log option) + (data_iterator \<times> simulation_log)" where
  "Replay_header U it0 =
     (case it_next it0 of
        (None, it1) \<Rightarrow> Inl (ParserError ''Replay corrupt!'', it1, None)
      | (Some line, it1) \<Rightarrow>
          (let splitLine = split_sp line in
           if charAt line 0 = ''R'' \<and> charAt line 1 = ''P'' \<and> charAt line 2 = ''L'' then
             (if length splitLine < 3 then Inl (ParserError ''Malformated Replay Header!'', it1, None)
              else Inr (snd (it_next it1),
                        new_Replay U (if splitLine ! 1 = ''2D'' then TWOD else THREED)
                          (parseInt_str 10 (splitLine ! 2))))
           else if charAt line 0 = ''T'' then
             (if length splitLine < 3 then Inl (ParserError ''Invalid team line!'', it1, None)
              else
                (let r0 = new_Replay U TWOD (Fin 0);
                     r1 = r0\<lparr>leftTeam := set_name (leftTeam r0) (slice2 (splitLine ! 1) 1 (- 1)),
                             rightTeam := set_name (rightTeam r0) (slice2 (splitLine ! 2) 1 (- 1))\<rparr>
                 in Inr (snd (it_next it1), add_default_agents r1)))
           else if charAt line 0 = ''V'' then
             (if length splitLine < 4 then Inl (ParserError ''Malformated Replay Header!'', it1, None)
              else
                (let r0 = (new_Replay U THREED (Fin 0))\<lparr>frequency := parseInt_str 10 (splitLine ! 3)\<rparr> in
                 case it_next it1 of
                   (None, it2) \<Rightarrow> Inl (ParserError ''Replay corrupt!'', it2, Some r0)
                 | (Some line2, it2) \<Rightarrow>
                     (let sl2 = split_sp line2 in
                      if length sl2 < 5 \<or> sl2 ! 0 \<noteq> ''T''
                      then Inl (ParserError ''Invalid teams line!'', it2, Some r0)
                      else
                        (let r1 = r0\<lparr>leftTeam := set_name (leftTeam r0) (slice2 (sl2 ! 1) 1 (- 1)),
                                     rightTeam := set_name (rightTeam r0) (slice2 (sl2 ! 3) 1 (- 1))\<rparr> in
                         case it_next it2 of
                           (None, it3) \<Rightarrow> Inl (ParserError ''Replay corrupt!'', it3, Some r1)
                         | (Some line3, it3) \<Rightarrow>
                             (let sl3 = split_sp line3 in
                              if length sl3 < 2 \<or> sl3 ! 0 \<noteq> ''F''
                              then Inl (ParserError ''Invalid world line!'', it3, Some r1)
                              else Inr (snd (it_next it3),
                                        field_params (parseInt_str 10 (sl3 ! 1)) r1))))))
           else Inl (ParserError
                  ''Failed parsing replay file - no Replay header found (and none of the fallback options applies)!'',
                 it1, None)))"

definition Replay_parse :: "sserver_util \<Rightarrow> json_parser \<Rightarrow> log_parser \<Rightarrow> string \<Rightarrow> bool \<Rightarrow> bool
    \<Rightarrow> (exn + bool) \<times> log_parser" where
  "Replay_parse U J P d partial incremental =
     (case (lp_iterator P, lp_log P, lp_storage P) of
        (Some it, Some replay, Some sto) \<Rightarrow>
          parse_progress
            (Replay_line U J (select_parseBallFcn replay) (select_parseAgentFcn U replay))
            ''Empty replay file!'' P it replay sto d partial incremental
      | _ \<Rightarrow>
          (case Replay_header U (new_DataIterator d partial) of
             Inl (e, it1, r) \<Rightarrow>
               (Inl e, P\<lparr>lp_iterator := Some it1, lp_log := (case r of None \<Rightarrow> lp_log P | Some x \<Rightarrow> Some x)\<rparr>)
           | Inr (it1, replay) \<Rightarrow>
               parse_result ''Empty replay file!'' partial True
                 (after_body P
                    (parseReplayBody U J it1
                       \<lparr>ps_log = replay,
                        ps_storage = new_LogParserStorage
                          \<lparr>maxStates := (if log_type replay = TWOD then 300 else 50)\<rparr>\<rparr>))))"

section \<open>Running a decoder\<close>

text \<open>
  The line decoder of a pass. \<^verbatim>\<open>parseULGBody\<close> has one; \<^verbatim>\<open>parseReplayBody\<close> chooses the
  ball and agent decoders from the type and the version of the replay each time it runs.
\<close>

type_synonym line_decoder = "string \<Rightarrow> parse_state \<Rightarrow> bool \<times> parse_state"

definition ULG_decoder :: "sserver_util \<Rightarrow> simulation_log \<Rightarrow> line_decoder" where
  "ULG_decoder U lg = ULG_line U"

definition Replay_decoder :: "sserver_util \<Rightarrow> json_parser \<Rightarrow> simulation_log \<Rightarrow> line_decoder" where
  "Replay_decoder U J lg = Replay_line U J (select_parseBallFcn lg) (select_parseAgentFcn U lg)"

text \<open>
  The host runs a scheduled continuation (\<^verbatim>\<open>setTimeout(parseULGBody, 1, iterator, log, storage)\<close>)
  as a task of its queue: the pass runs again on the cursor, the log and the storage of the
  decoder. \<open>continue_pass\<close> is one such task, and does nothing when none is scheduled;
  \<open>run_queue\<close> runs tasks until none is scheduled. With \<^verbatim>\<open>maxStates\<close> equal to 0 a pass would
  schedule itself for ever; \<open>None\<close> stands for that.
\<close>

definition continue_pass :: "(simulation_log \<Rightarrow> line_decoder) \<Rightarrow> log_parser \<Rightarrow> log_parser" where
  "continue_pass hs P =
     (if lp_scheduled P then
        (case lp_log P of
           Some lg \<Rightarrow> run_continuation (hs lg) P
         | None \<Rightarrow> P\<lparr>lp_scheduled := False\<rparr>)
      else P)"

partial_function (option) run_queue :: "(log_parser \<Rightarrow> log_parser) \<Rightarrow> log_parser \<Rightarrow> log_parser option" where
  "run_queue t P = (if lp_scheduled P then run_queue t (t P) else Some P)"

text \<open>
  A caller that has the text in pieces (\<^verbatim>\<open>SimulationLogLoader\<close> on the progress events of a
  download): it calls \<^verbatim>\<open>parse\<close> for every piece with \<^verbatim>\<open>partial = true\<close> and for the last one
  with \<^verbatim>\<open>partial = false\<close>. With \<^verbatim>\<open>incremental = true\<close> it passes the new piece, otherwise all
  data so far (\<open>acc\<close>) with the new piece appended. Between two calls the host runs \<open>n\<close> tasks
  of its queue. The results and exceptions of the calls are dropped here.
\<close>

fun feed :: "(log_parser \<Rightarrow> string \<Rightarrow> bool \<Rightarrow> bool \<Rightarrow> (exn + bool) \<times> log_parser)
    \<Rightarrow> (log_parser \<Rightarrow> log_parser) \<Rightarrow> bool \<Rightarrow> string \<Rightarrow> log_parser \<Rightarrow> (string \<times> nat) list \<Rightarrow> string
    \<Rightarrow> log_parser" where
  "feed parse t incr acc P [] final = snd (parse P (if incr then final else acc @ final) False incr)"
| "feed parse t incr acc P ((c, n) # cs) final =
     feed parse t incr (acc @ c)
       ((t ^^ n) (snd (parse P (if incr then c else acc @ c) True incr))) cs final"

text \<open>The states of the log once the queue of the host is empty.\<close>

definition final_states :: "(log_parser \<Rightarrow> log_parser) \<Rightarrow> log_parser \<Rightarrow> world_state list option" where
  "final_states t P = (case run_queue t P of None \<Rightarrow> None | Some PF \<Rightarrow> map_option states (lp_log PF))"

text \<open>
  The header part of \<^verbatim>\<open>ULGParser.parse\<close>, and the storage that the first call of each
  \<^verbatim>\<open>parse\<close> creates; \<open>ULG_parse_first\<close> and \<open>Replay_parse_first\<close> below say that the first
  calls are made of these.
\<close>

definition ULG_header :: "sserver_util \<Rightarrow> data_iterator
    \<Rightarrow> (exn \<times> data_iterator) + (data_iterator \<times> simulation_log)" where
  "ULG_header U it0 =
     (case it_next it0 of
        (line, it1) \<Rightarrow>
          (if line = None \<or>
              (charAt (the line) 0 \<noteq> ''U'' \<and> charAt (the line) 1 \<noteq> ''L'' \<and> charAt (the line) 2 \<noteq> ''G'')
           then Inl (ParserError ''Failed parsing ULG log file - no ULG header found!'', it1)
           else Inr (snd (it_next it1), new_SServerLog U (parseInt_str 10 (slice1 (the line) 3)))))"

definition ULG_storage :: log_parser_storage where
  "ULG_storage = new_LogParserStorage
     \<lparr>partialState := Some (new_PartialWorldState (Fin 0) (Fin (1 / 10)) (Fin 0)), maxStates := 100\<rparr>"

definition Replay_storage :: "simulation_log \<Rightarrow> log_parser_storage" where
  "Replay_storage replay = new_LogParserStorage\<lparr>maxStates := (if log_type replay = TWOD then 300 else 50)\<rparr>"

subsection \<open>Notions for the proofs\<close>

text \<open>
  The lines that a cursor will yield when the text \<open>c\<close> is appended to its data: with and
  without the line it has fetched but not decoded.
\<close>

definition future :: "data_iterator \<Rightarrow> string \<Rightarrow> string list" where
  "future it c = (case it_line it of None \<Rightarrow> [] | Some l \<Rightarrow> [l]) @ all_lines (it_rest it @ c)"

definition ahead :: "data_iterator \<Rightarrow> string \<Rightarrow> string list" where
  "ahead it c = all_lines (it_rest it @ c)"

text \<open>
  A state with the derived fields of the log reset, and the completion of a log at the end
  of the text without the derived fields.
\<close>

definition core :: "parse_state \<Rightarrow> parse_state" where
  "core st = with_derived (Fin 0, Fin 0, Fin 0, [], []) st"

definition finish :: "parse_state \<Rightarrow> parse_state" where
  "finish st = (let st4 = snd (append_partial st) in st4\<lparr>ps_log := (ps_log st4)\<lparr>fullyLoaded := True\<rparr>\<rparr>)"

text \<open>The type and the version of a log.\<close>

definition log_kind :: "simulation_log \<Rightarrow> SimulationType \<times> jsnum" where
  "log_kind lg = (log_type lg, version lg)"

text \<open>
  What the proofs need of a decoder: its line decoders are framed, and neither a line nor
  the end of a pass changes which line decoder the log selects.
\<close>

definition decoder_ok :: "(simulation_log \<Rightarrow> line_decoder) \<Rightarrow> bool" where
  "decoder_ok hs \<longleftrightarrow>
     (\<forall>lg. framed (hs lg))
     \<and> (\<forall>lg l st. hs (ps_log (snd (hs lg l st))) = hs (ps_log st))
     \<and> (\<forall>st c f. hs (ps_log (pass_state st c f)) = hs (ps_log st))"

text \<open>
  \<^verbatim>\<open>parse\<close> on a decoder that has cursor, log and storage is \<open>parse_progress\<close>.
\<close>

definition parse_continues :: "(simulation_log \<Rightarrow> line_decoder) \<Rightarrow> string
    \<Rightarrow> (log_parser \<Rightarrow> string \<Rightarrow> bool \<Rightarrow> bool \<Rightarrow> (exn + bool) \<times> log_parser) \<Rightarrow> bool" where
  "parse_continues hs msg parse \<longleftrightarrow>
     (\<forall>P d partial incr it lg sto.
        lp_iterator P = Some it \<longrightarrow> lp_log P = Some lg \<longrightarrow> lp_storage P = Some sto \<longrightarrow>
        parse P d partial incr = parse_progress (hs lg) msg P it lg sto d partial incr)"

text \<open>
  The decoder between two passes, for the state \<open>st0\<close> behind the header and the lines \<open>L\<close>
  of the whole body. While the text is partial (\<open>pinv\<close>): the state is, up to the derived
  fields, the one after the lines decoded so far, and these and the lines still to come,
  with the rest \<open>c\<close> of the text, make up \<open>L\<close>. Once the text is complete (\<open>pfin\<close>): the
  same while a continuation is scheduled, and otherwise the log is the completed log of
  all lines. \<open>waiting\<close> counts the lines still to come.
\<close>

definition pinv :: "(simulation_log \<Rightarrow> line_decoder) \<Rightarrow> parse_state \<Rightarrow> string list \<Rightarrow> string \<Rightarrow> string
    \<Rightarrow> bool \<Rightarrow> log_parser \<Rightarrow> bool" where
  "pinv hs st0 L c acc incr P \<longleftrightarrow>
     (\<exists>it lg sto done.
        lp_iterator P = Some it \<and> lp_log P = Some lg \<and> lp_storage P = Some sto
        \<and> it_wf it \<and> it_partialData it \<and> (lp_scheduled P \<longleftrightarrow> it_line it \<noteq> None)
        \<and> (\<not> incr \<longrightarrow> it_data it = acc)
        \<and> hs lg = hs (ps_log st0) \<and> 0 < maxStates sto
        \<and> core \<lparr>ps_log = lg, ps_storage = sto\<rparr> = core (run_lines (hs (ps_log st0)) st0 done)
        \<and> L = done @ future it c)"

definition pfin :: "(simulation_log \<Rightarrow> line_decoder) \<Rightarrow> parse_state \<Rightarrow> string list \<Rightarrow> log_parser \<Rightarrow> bool" where
  "pfin hs st0 L P \<longleftrightarrow>
     (\<exists>lg sto.
        lp_log P = Some lg \<and> lp_storage P = Some sto
        \<and> hs lg = hs (ps_log st0) \<and> 0 < maxStates sto
        \<and> (if lp_scheduled P then
              (\<exists>it done. lp_iterator P = Some it \<and> it_wf it \<and> \<not> it_partialData it
                 \<and> it_line it \<noteq> None
                 \<and> core \<lparr>ps_log = lg, ps_storage = sto\<rparr> = core (run_lines (hs (ps_log st0)) st0 done)
                 \<and> L = done @ future it [])
            else core \<lparr>ps_log = lg, ps_storage = sto\<rparr>
                   = core (finish (run_lines (hs (ps_log st0)) st0 L))))"

definition waiting :: "log_parser \<Rightarrow> nat" where
  "waiting P = (case lp_iterator P of None \<Rightarrow> 0 | Some it \<Rightarrow> length (future it []))"

text \<open>
  The time step in force is good when it is a number of at least a millisecond: the step of
  the accumulator or, while there is none, the step that the frequency of the log will
  give it. \<open>steps_ok\<close> says so for the state before and after each of the lines.
\<close>

definition good_step :: "jsnum \<Rightarrow> bool" where
  "good_step s = (case s of Fin x \<Rightarrow> 1 / 1000 \<le> x | _ \<Rightarrow> False)"

definition good_frequency :: "jsnum \<Rightarrow> bool" where
  "good_frequency f = (case f of Fin x \<Rightarrow> 0 < x \<and> x \<le> 1000 | _ \<Rightarrow> False)"

definition step_ok :: "parse_state \<Rightarrow> bool" where
  "step_ok st =
     (case partialState (ps_storage st) of
        Some p \<Rightarrow> good_step (timeStep p)
      | None \<Rightarrow> good_frequency (frequency (ps_log st)))"

fun steps_ok :: "line_decoder \<Rightarrow> parse_state \<Rightarrow> string list \<Rightarrow> bool" where
  "steps_ok h st [] = step_ok st"
| "steps_ok h st (l # ls) = (step_ok st \<and> steps_ok h (snd (h l st)) ls)"

text \<open>
  The clock of a decoder: the times of the states of the log and the time of the
  accumulator. It is in order when the times increase strictly and the time of the
  accumulator is a number beyond all of them.
\<close>

definition clock :: "parse_state \<Rightarrow> jsnum list \<times> jsnum option" where
  "clock st = (map ws_time (states (ps_log st)), map_option pws_time (partialState (ps_storage st)))"

definition times_ok :: "parse_state \<Rightarrow> bool" where
  "times_ok st =
     (case clock st of
        (ts, pending) \<Rightarrow>
          sorted_wrt js_lt ts
          \<and> (case pending of
                None \<Rightarrow> ts = []
              | Some t \<Rightarrow> (case t of Fin x \<Rightarrow> True | _ \<Rightarrow> False) \<and> (\<forall>s\<in>set ts. js_lt s t)))"

definition keeps_time :: "line_decoder \<Rightarrow> bool" where
  "keeps_time h \<longleftrightarrow> (\<forall>l st. times_ok st \<longrightarrow> step_ok st \<longrightarrow> times_ok (snd (h l st)))"

text \<open>The states of a log, if there is one, increase strictly in time.\<close>

definition increasing :: "world_state list option \<Rightarrow> bool" where
  "increasing r = (case r of None \<Rightarrow> False | Some sts \<Rightarrow> sorted_wrt js_lt (map ws_time sts))"

section \<open>Example values\<close>

text \<open>
  Values for the constants of the missing module, used to run the decoders on examples:
  the step of the 2D simulator is 100 ms, there is one default player type.
\<close>

definition example_util :: sserver_util where
  "example_util =
     \<lparr>SIMULATOR_STEP = ''simulator_step'', PlayerType2D_ID = ''id'',
      default2DEnvironmentParams = [(''simulator_step'', JNum (Fin 100))],
      default2DPlayerParams = [], default2DPlayerTypeParams = [[(''id'', JNum (Fin 0))]],
      STAND = 1, GOALIE = 2,
      STAMINA = 0, STAMINA_EFFORT = 1, STAMINA_RECOVERY = 2, STAMINA_CAPACITY = 3,
      FOCUS_SIDE = 4, FOCUS_UNUM = 5, KICK_COUNT = 6, DASH_COUNT = 7, TURN_COUNT = 8,
      CATCH_COUNT = 9, MOVE_COUNT = 10, TURN_NECK_COUNT = 11, VIEW_COUNT = 12, SAY_COUNT = 13,
      TACKLE_COUNT = 14, POINT_TO_COUNT = 15, ATTENTION_COUNT = 16\<rparr>"

text \<open>A host \<^verbatim>\<open>JSON.parse\<close> that rejects every text, for examples without JSON lines.\<close>

definition no_json :: json_parser where
  "no_json s = None"

text \<open>The state of the ULG decoder behind the header line \<^verbatim>\<open>ULG5\<close>.\<close>

definition example_state :: parse_state where
  "example_state =
     \<lparr>ps_log = new_SServerLog example_util (Fin 5),
      ps_storage = new_LogParserStorage
        \<lparr>partialState := Some (new_PartialWorldState (Fin 0) (Fin (1 / 10)) (Fin 0)),
         maxStates := 100\<rparr>\<rparr>"

text \<open>
  A 3D replay of version 0 behind the state line \<^verbatim>\<open>S 0 PlayOn 0 0\<close>, and the line of the
  left player 5.
\<close>

definition example_replay_state :: parse_state where
  "example_replay_state =
     snd (parseStateLine ''S 0 PlayOn 0 0''
       \<lparr>ps_log = new_Replay example_util THREED (Fin 0),
        ps_storage = new_LogParserStorage\<lparr>maxStates := 50\<rparr>\<rparr>)"

text \<open>
  The six numbers of a score, and a log of five world states whose scores are
  0:0, 0:0, 0:0, 1:0, 1:0, the first three and the last two holding the same instance.
\<close>

definition score_goals :: "game_score \<Rightarrow> jsnum \<times> jsnum \<times> jsnum \<times> jsnum \<times> jsnum \<times> jsnum" where
  "score_goals sc =
     (goalsLeft sc, goalsRight sc, penaltyScoreLeft sc, penaltyMissLeft sc,
      penaltyScoreRight sc, penaltyMissRight sc)"

definition example_world_state :: "game_state \<Rightarrow> game_score \<Rightarrow> jsnum \<Rightarrow> world_state" where
  "example_world_state g sc t =
     \<lparr>ws_time = t, ws_gameTime = t, ws_gameState = g, ws_score = sc,
      ballStateArr = new_ObjectState, leftAgentStateArrs = [], rightAgentStateArrs = []\<rparr>"

definition example_score_log :: simulation_log where
  "example_score_log =
     (let g = \<lparr>gs_ref = 0, gs_time = Fin 0, playMode = ''unknown''\<rparr>;
          s0 = new_GameScore 1 (Fin 0) (Fin 0) (Fin 0) (Fin 0) (Fin 0) (Fin 0) (Fin 0);
          s1 = new_GameScore 2 (Fin (3 / 10)) (Fin 1) (Fin 0) (Fin 0) (Fin 0) (Fin 0) (Fin 0)
      in (new_SServerLog example_util (Fin 5))
           \<lparr>states := [example_world_state g s0 (Fin 0), example_world_state g s0 (Fin (1 / 10)),
                        example_world_state g s0 (Fin (2 / 10)), example_world_state g s1 (Fin (3 / 10)),
                        example_world_state g s1 (Fin (4 / 10))]\<rparr>)"

section \<open>Running the decoders on examples\<close>

text \<open>The definitions that the simplifier unfolds to run a decoder on a concrete text.\<close>

lemmas run_defs = js_sub_def js_inf_def js_gt_def js_eq_def js_truthy_def num_def array_index_def array_set_def nth_opt_def charAt_def slice_pos_def slice2_def slice1_def indexOf_sp_def underscores_to_spaces_def is_ws_def digit_val_def is_digit_def digits_val_def strip_sign_def parseInt_str_def parseInt_def parse_exponent_def parseFloat_str_def parseFloat_def is_eol_def regExp_exec_def new_DataIterator_def it_dispose_def it_update_def it_hasNext_def it_next_def push_value_def SymbolTreeParser_parse_def obj_get_def pm_clear_def getNumber_def encodeObjectState_def new_ObjectState_def or_zero_def os_x_def os_y_def os_z_def os_qx_def os_qy_def os_qz_def os_qw_def ne_zero_def os_isValid_def hole_to_NaN_def encodeAgentState_def as_isValid_def same_pm_def addPlayerType_def new_TeamDescription_def set_name_def addAgent_def getRecentTypeIdx_def new_GameScore_def new_PartialWorldState_def round3_def setGameTime_def setPlaymode_def setScore_def appendTo_def dec_def paramsV62_def paramsV63_def paramsV64_def paramsV66_def default3DPlayerType_def types_map_def updateFrequency_def new_SimulationLog_def onStatesUpdated_def finalize_def new_LogParserStorage_def param_step_def parseParameters_def set_timeStep_def ULG_parseServerParamLine_def ULG_parsePlayerParamLine_def ULG_parsePlayerTypeLine_def append_partial_def upd_partial_def ULG_parsePlaymodeLine_def ULG_parseTeamLine_def PIby180_def toRad_def setFromAxisAngle_def ULG_parseBallState_def set_if_def agent_data_step_def ULG_parseAgentState_def show_child_step_def ULG_parseShowLine_def ULG_line_def body_loop.simps parse_body_def parseULGBody_def new_parser_def after_body_def parse_result_def parse_progress_def new_SServerLog_def ULG_parse_def run_continuation_def parseEnvironmentParams_def parsePlayerParams_def parsePlayerTypeParams_def Replay_parseTeamLine_def parseStateLine_def parseBallState_2D_def parseBallState_V0_3D_def parseBallState_V1_3D_def side_team_def side_indexList_def side_agentStates_def set_side_def flag_num_def parseAgentState_V0_2D_def joint_V0_def parseAgentState_V0_3D_def parseJointNode_def agent_child_V1_def parseAgentState_V1_def select_parseBallFcn_def select_parseAgentFcn_def Replay_line_def parseReplayBody_def new_Replay_def add_default_agents_def field_params_def Replay_header_def Replay_parse_def example_util_def no_json_def example_state_def example_replay_state_def Let_def

section \<open>The token-tree parser always returns\<close>

lemma parseNode_enough_fuel:
  "length input - idx < fuel \<Longrightarrow> idx \<le> length input \<Longrightarrow>
   (case parseNode fuel input idx startIdx vals kids of
      Inl e \<Rightarrow> e \<noteq> OutOfFuel
    | Inr (pos, n) \<Rightarrow> idx < pos \<and> pos \<le> length input)"
proof (induction fuel arbitrary: idx startIdx vals kids)
  case 0
  then show ?case by simp
next
  case (Suc fuel)
  show ?case
  proof (cases "idx < length input")
    case False
    then show ?thesis by simp
  next
    case True
    then have f: "length input - (idx + 1) < fuel" and l: "idx + 1 \<le> length input"
      using Suc.prems by auto
    note ih = Suc.IH[OF f l]
    show ?thesis
    proof (cases "input ! idx = CHR ''(''")
      case isopen: True
      show ?thesis
      proof (cases "parseNode fuel input (idx + 1) (idx + 1) [] []")
        case (Inl e)
        with ih[of "idx + 1" "[]" "[]"] isopen True show ?thesis by simp
      next
        case (Inr r)
        obtain pos child where r: "r = (pos, child)" by (cases r)
        with ih[of "idx + 1" "[]" "[]"] Inr have p: "idx + 1 < pos" "pos \<le> length input" by auto
        then have "length input - pos < fuel" using f by linarith
        from Suc.IH[OF this p(2), of pos "push_value input startIdx idx vals" "kids @ [child]"]
        show ?thesis using isopen True Inr r p
          by (auto split: sum.splits)
      qed
    next
      case notopen: False
      show ?thesis
        using ih[of "idx + 1" "push_value input startIdx idx vals" kids]
              ih[of startIdx vals kids] True notopen
        by (auto split: sum.splits)
    qed
  qed
qed

lemma SymbolTreeParser_parse_returns: "SymbolTreeParser_parse input \<noteq> Inl OutOfFuel"
proof (cases "charAt input 0 \<noteq> ''('' \<or> charAt input (length input - 1) \<noteq> '')''")
  case True
  then show ?thesis by (simp add: SymbolTreeParser_parse_def)
next
  case False
  then have "1 \<le> length input" by (cases input) (auto simp: charAt_def)
  then have "case parseNode (Suc (length input)) input 1 1 [] [] of
      Inl e \<Rightarrow> e \<noteq> OutOfFuel
    | Inr (pos, n) \<Rightarrow> 1 < pos \<and> pos \<le> length input"
    by (intro parseNode_enough_fuel) auto
  then show ?thesis
    unfolding SymbolTreeParser_parse_def
    by (cases "parseNode (Suc (length input)) input 1 1 [] []") (auto simp del: parseNode.simps split: if_splits)
qed

section \<open>Properties of the line cursor\<close>

lemma regExp_exec_segment:
  assumes "drop i s = eols @ seg @ rest"
    and "\<forall>c\<in>set eols. is_eol c"
    and "seg \<noteq> []"
    and "\<forall>c\<in>set seg. \<not> is_eol c"
    and "rest = [] \<or> is_eol (hd rest)"
  shows "regExp_exec s i = (Some seg, i + length eols + length seg)"
proof -
  obtain c cs where seg: "seg = c # cs" and c: "\<not> is_eol c"
    using assms(3) assms(4) by (cases seg) auto
  have tw: "takeWhile is_eol (drop i s) = eols"
    using assms(2) c by (simp add: assms(1) seg)
  have "drop (length eols) (drop i s) = seg @ rest"
    by (simp add: assms(1))
  then have dr: "drop (i + length eols) s = seg @ rest"
    by (simp add: add.commute)
  have tw2: "takeWhile (\<lambda>c. \<not> is_eol c) (seg @ rest) = seg"
    using assms(4) assms(5) by (cases rest) auto
  show ?thesis
    using assms(3) by (simp add: regExp_exec_def Let_def tw dr tw2)
qed

text \<open>
  Claim C9. Let the text behind the cursor be line terminators, then a non-empty segment
  \<open>seg\<close> free of terminators, then either nothing or a terminator and more. If nothing
  follows the segment and the data is partial, \<^verbatim>\<open>next\<close> yields no line and leaves the
  position where it was, and \<^verbatim>\<open>hasNext\<close> is false; with the same buffer and the partial
  flag false the segment is yielded as a line; and a segment followed by a terminator is
  yielded whatever the flag is, so a buffer ending exactly at a terminator has its last
  line yielded while partial.
\<close>

theorem C9_trailing_line:
  assumes "drop (it_lastIndex it) (it_data it) = eols @ seg @ rest"
    and "\<forall>c\<in>set eols. is_eol c"
    and "seg \<noteq> []"
    and "\<forall>c\<in>set seg. \<not> is_eol c"
    and "rest = [] \<or> is_eol (hd rest)"
  shows "it_next it =
           (if it_partialData it \<and> rest = [] then (None, it\<lparr>it_line := None\<rparr>)
            else (Some seg, it\<lparr>it_lastIndex := it_lastIndex it + length eols + length seg,
                                it_line := Some seg\<rparr>))
         \<and> (it_hasNext it \<longleftrightarrow> \<not> (it_partialData it \<and> rest = []))"
proof -
  have ex: "regExp_exec (it_data it) (it_lastIndex it)
              = (Some seg, it_lastIndex it + length eols + length seg)"
    by (rule regExp_exec_segment[OF assms])
  have d: "length (it_data it) - it_lastIndex it = length eols + length seg + length rest"
    using arg_cong[OF assms(1), of length] by simp
  have "0 < length seg" using assms(3) by simp
  with d have len: "length (it_data it) = it_lastIndex it + length eols + length seg + length rest"
    by linarith
  then have at_end: "it_lastIndex it + length eols + length seg = length (it_data it) \<longleftrightarrow> rest = []"
    by auto
  show ?thesis
    by (simp add: it_next_def it_hasNext_def ex at_end Let_def)
qed

text \<open>The three cases on the buffers \<^verbatim>\<open>ab\ncd\<close> and \<^verbatim>\<open>ab\ncd\n\<close> after the first line.\<close>

theorem C9_trailing_line_witness:
  "it_next \<lparr>it_data = ''ab'' @ [CHR 0x0A] @ ''cd'', it_lastIndex = 2, it_line = Some ''ab'',
            it_partialData = True\<rparr>
     = (None, \<lparr>it_data = ''ab'' @ [CHR 0x0A] @ ''cd'', it_lastIndex = 2, it_line = None,
               it_partialData = True\<rparr>)
   \<and> it_next \<lparr>it_data = ''ab'' @ [CHR 0x0A] @ ''cd'', it_lastIndex = 2, it_line = Some ''ab'',
              it_partialData = False\<rparr>
     = (Some ''cd'', \<lparr>it_data = ''ab'' @ [CHR 0x0A] @ ''cd'', it_lastIndex = 5, it_line = Some ''cd'',
                     it_partialData = False\<rparr>)
   \<and> it_next \<lparr>it_data = ''ab'' @ [CHR 0x0A] @ ''cd'' @ [CHR 0x0A], it_lastIndex = 2,
              it_line = Some ''ab'', it_partialData = True\<rparr>
     = (Some ''cd'', \<lparr>it_data = ''ab'' @ [CHR 0x0A] @ ''cd'' @ [CHR 0x0A], it_lastIndex = 5,
                     it_line = Some ''cd'', it_partialData = True\<rparr>)"
  using C9_trailing_line[of "\<lparr>it_data = ''ab'' @ [CHR 0x0A] @ ''cd'', it_lastIndex = 2, it_line = Some ''ab'',
            it_partialData = True\<rparr>" "[CHR 0x0A]" "''cd''" "[]"]
    C9_trailing_line[of "\<lparr>it_data = ''ab'' @ [CHR 0x0A] @ ''cd'', it_lastIndex = 2, it_line = Some ''ab'',
            it_partialData = False\<rparr>" "[CHR 0x0A]" "''cd''" "[]"]
    C9_trailing_line[of "\<lparr>it_data = ''ab'' @ [CHR 0x0A] @ ''cd'' @ [CHR 0x0A], it_lastIndex = 2, it_line = Some ''ab'',
            it_partialData = True\<rparr>" "[CHR 0x0A]" "''cd''" "[CHR 0x0A]"]
  by (simp add: is_eol_def)

section \<open>Object states\<close>

text \<open>
  Claim C10. An object state constructed without arguments is at the origin with the
  quaternion \<open>(0, 0, 0, 1)\<close> and is valid; a new accumulator holds it as ball state; and
  an accumulator whose ball state is still that of its construction commits a world state
  with this valid ball state.
\<close>

theorem C10_default_ball_state:
  assumes "ballState p = ballState (new_PartialWorldState t step gt)"
    and "appendTo p sts = (True, p', sts')"
  shows "ballStateArr (last sts') = new_ObjectState
         \<and> os_x new_ObjectState = Fin 0 \<and> os_y new_ObjectState = Fin 0 \<and> os_z new_ObjectState = Fin 0
         \<and> os_qx new_ObjectState = Fin 0 \<and> os_qy new_ObjectState = Fin 0
         \<and> os_qz new_ObjectState = Fin 0 \<and> os_qw new_ObjectState = Fin 1
         \<and> os_isValid new_ObjectState \<and> os_isValid (ballStateArr (last sts'))"
proof -
  have b: "ballStateArr (last sts') = new_ObjectState"
    using assms by (auto simp: appendTo_def new_PartialWorldState_def split: if_splits)
  have v: "os_isValid new_ObjectState"
    by (simp add: os_isValid_def new_ObjectState_def encodeObjectState_def nth_opt_def ne_zero_def js_eq_def)
  have g: "os_x new_ObjectState = Fin 0 \<and> os_y new_ObjectState = Fin 0 \<and> os_z new_ObjectState = Fin 0
         \<and> os_qx new_ObjectState = Fin 0 \<and> os_qy new_ObjectState = Fin 0
         \<and> os_qz new_ObjectState = Fin 0 \<and> os_qw new_ObjectState = Fin 1"
    by (simp add: os_x_def os_y_def os_z_def os_qx_def os_qy_def os_qz_def os_qw_def or_zero_def
          new_ObjectState_def encodeObjectState_def nth_opt_def js_truthy_def)
  from b v g show ?thesis by simp
qed

text \<open>An accumulator with one agent and no ball line, committed to an empty list.\<close>

theorem C10_default_ball_state_witness:
  "appendTo ((new_PartialWorldState (Fin 0) (Fin (1 / 10)) (Fin 0))\<lparr>leftAgentStates := [Some []]\<rparr>) []
     = (True,
        (new_PartialWorldState (Fin 0) (Fin (1 / 10)) (Fin 0))\<lparr>pws_time := Fin (1 / 10)\<rparr>,
        [\<lparr>ws_time = Fin 0, ws_gameTime = Fin 0,
          ws_gameState = gameState (new_PartialWorldState (Fin 0) (Fin (1 / 10)) (Fin 0)),
          ws_score = score (new_PartialWorldState (Fin 0) (Fin (1 / 10)) (Fin 0)),
          ballStateArr = new_ObjectState,
          leftAgentStateArrs = [Some []], rightAgentStateArrs = []\<rparr>])
   \<and> os_isValid (ballStateArr (last
        [\<lparr>ws_time = Fin 0, ws_gameTime = Fin 0,
          ws_gameState = gameState (new_PartialWorldState (Fin 0) (Fin (1 / 10)) (Fin 0)),
          ws_score = score (new_PartialWorldState (Fin 0) (Fin (1 / 10)) (Fin 0)),
          ballStateArr = new_ObjectState,
          leftAgentStateArrs = [Some []], rightAgentStateArrs = []\<rparr>]))"
proof -
  have a: "appendTo ((new_PartialWorldState (Fin 0) (Fin (1 / 10)) (Fin 0))\<lparr>leftAgentStates := [Some []]\<rparr>) []
     = (True,
        (new_PartialWorldState (Fin 0) (Fin (1 / 10)) (Fin 0))\<lparr>pws_time := Fin (1 / 10)\<rparr>,
        [\<lparr>ws_time = Fin 0, ws_gameTime = Fin 0,
          ws_gameState = gameState (new_PartialWorldState (Fin 0) (Fin (1 / 10)) (Fin 0)),
          ws_score = score (new_PartialWorldState (Fin 0) (Fin (1 / 10)) (Fin 0)),
          ballStateArr = new_ObjectState,
          leftAgentStateArrs = [Some []], rightAgentStateArrs = []\<rparr>])"
    by (simp add: appendTo_def new_PartialWorldState_def round3_def)
  from C10_default_ball_state[OF _ a, of "Fin 0" "Fin (1 / 10)" "Fin 0"] a show ?thesis
    by (simp add: new_PartialWorldState_def)
qed

section \<open>The header of a ULG log\<close>

text \<open>
  Claim C6. The header check joins its three character tests with \<^verbatim>\<open>&&\<close>, so it rejects
  a first line only when all three characters differ from \<^verbatim>\<open>ULG\<close>. The text with the
  first line \<^verbatim>\<open>UXY\<close> and one show line is decoded without any error, as a complete log
  and as partial data.
\<close>

theorem C6_header_UXY_accepted:
  "fst (ULG_parse example_util new_parser
          (''UXY'' @ [CHR 0x0A] @ ''(show 1 ((l 1) 0 0x1 1 2 0 0 0))'' @ [CHR 0x0A]) False False) = Inr True
   \<and> fst (ULG_parse example_util new_parser (''UXY'' @ [CHR 0x0A]) True False) = Inr False"
  by (simp add: run_defs)

text \<open>In particular the call on the partial data does not throw the header error.\<close>

theorem C6_header_UXY_accepted_witness:
  "fst (ULG_parse example_util new_parser (''UXY'' @ [CHR 0x0A]) True False)
     \<noteq> Inl (ParserError ''Failed parsing ULG log file - no ULG header found!'')"
  using C6_header_UXY_accepted by simp

section \<open>Team lines of a ULG log\<close>

lemma team_line_quoted_tree:
  "SymbolTreeParser_parse ''(team 100 \"TeamA\" \"TeamB\" 1 0)''
     = Inr (SymbolNode [''team'', ''100'', ''\"TeamA\"'', ''\"TeamB\"'', ''1'', ''0''] [])"
  by (simp add: SymbolTreeParser_parse_def charAt_def push_value_def)

lemma team_line_plain_tree:
  "SymbolTreeParser_parse ''(team 100 TeamA TeamB 1 0)''
     = Inr (SymbolNode [''team'', ''100'', ''TeamA'', ''TeamB'', ''1'', ''0''] [])"
  by (simp add: SymbolTreeParser_parse_def charAt_def push_value_def)

lemma td_name_set_name: "td_name (set_name t n) = underscores_to_spaces n"
  by (simp add: set_name_def Let_def)

lemma goals_setScore:
  "goalsLeft (score (setScore gl gr a b c d p)) = gl \<and> goalsRight (score (setScore gl gr a b c d p)) = gr"
  by (cases "gl = NaN"; cases "gr = NaN") (auto simp: setScore_def js_eq_def new_GameScore_def)

lemma gameTime_setScore: "gameTime (setScore gl gr a b c d p) = gameTime p"
  by (simp add: setScore_def)

lemma append_partial_Some:
  "partialState (ps_storage st) = Some p \<Longrightarrow>
     \<exists>q. partialState (ps_storage (snd (append_partial st))) = Some q"
  by (simp add: append_partial_def split: prod.splits)

lemma append_partial_teams:
  "leftTeam (ps_log (snd (append_partial st))) = leftTeam (ps_log st)
   \<and> rightTeam (ps_log (snd (append_partial st))) = rightTeam (ps_log st)"
  by (simp add: append_partial_def split: option.splits prod.splits)

lemma upd_partial_log: "ps_log (upd_partial f st) = ps_log st"
  by (simp add: upd_partial_def split: option.splits)

lemma upd_partial_Some:
  "partialState (ps_storage st) = Some q \<Longrightarrow>
     partialState (ps_storage (upd_partial f st)) = Some (f q)"
  by (simp add: upd_partial_def)

lemma team_time: "round3 (js_div (parseInt (Some ''100'') 10) (Fin 10)) = Fin 10"
  by (simp add: run_defs)

lemma team_goals: "parseInt (Some ''1'') 10 = Fin 1 \<and> parseInt (Some ''0'') 10 = Fin 0"
  by (simp add: run_defs)

text \<open>
  Claim C8, as amended. While a partial state exists, the line
  \<^verbatim>\<open>(team 100 "TeamA" "TeamB" 1 0)\<close> sets the score to 1:0 and the game time to 10.0,
  and sets the team names to the tokens as they are written, quotation marks included;
  the line \<^verbatim>\<open>(team 100 TeamA TeamB 1 0)\<close> sets the names \<^verbatim>\<open>TeamA\<close> and \<^verbatim>\<open>TeamB\<close>.
\<close>

theorem C8_team_line:
  assumes "partialState (ps_storage st) = Some p"
    and "dataLine = ''(team 100 \"TeamA\" \"TeamB\" 1 0)'' \<or> dataLine = ''(team 100 TeamA TeamB 1 0)''"
  shows "\<exists>p'. partialState (ps_storage (snd (ULG_parseTeamLine dataLine st))) = Some p'
           \<and> goalsLeft (score p') = Fin 1 \<and> goalsRight (score p') = Fin 0 \<and> gameTime p' = Fin 10
           \<and> td_name (leftTeam (ps_log (snd (ULG_parseTeamLine dataLine st))))
               = (if dataLine = ''(team 100 TeamA TeamB 1 0)'' then ''TeamA'' else ''\"TeamA\"'')
           \<and> td_name (rightTeam (ps_log (snd (ULG_parseTeamLine dataLine st))))
               = (if dataLine = ''(team 100 TeamA TeamB 1 0)'' then ''TeamB'' else ''\"TeamB\"'')"
proof -
  define st1 where "st1 = (\<lambda>l r. st\<lparr>ps_log := (ps_log st)
        \<lparr>leftTeam := set_name (leftTeam (ps_log st)) l, rightTeam := set_name (rightTeam (ps_log st)) r\<rparr>\<rparr>)"
  have ps: "\<And>l r. partialState (ps_storage (st1 l r)) = Some p"
    by (simp add: st1_def assms(1))
  have names: "\<And>l r. td_name (leftTeam (ps_log (snd (append_partial (st1 l r))))) = underscores_to_spaces l
      \<and> td_name (rightTeam (ps_log (snd (append_partial (st1 l r))))) = underscores_to_spaces r"
    by (simp add: append_partial_teams st1_def td_name_set_name)
  have core: "\<And>l r. \<exists>p'. partialState (ps_storage
        (upd_partial (setScore (Fin 1) (Fin 0) (Fin 0) (Fin 0) (Fin 0) (Fin 0))
           (upd_partial (setGameTime (js_div (Fin 100) (Fin 10))) (snd (append_partial (st1 l r)))))) = Some p'
        \<and> goalsLeft (score p') = Fin 1 \<and> goalsRight (score p') = Fin 0 \<and> gameTime p' = Fin 10"
  proof -
    fix l r
    from append_partial_Some[OF ps[of l r]] obtain q
      where q: "partialState (ps_storage (snd (append_partial (st1 l r)))) = Some q" by blast
    show "\<exists>p'. partialState (ps_storage
        (upd_partial (setScore (Fin 1) (Fin 0) (Fin 0) (Fin 0) (Fin 0) (Fin 0))
           (upd_partial (setGameTime (js_div (Fin 100) (Fin 10))) (snd (append_partial (st1 l r)))))) = Some p'
        \<and> goalsLeft (score p') = Fin 1 \<and> goalsRight (score p') = Fin 0 \<and> gameTime p' = Fin 10"
      using upd_partial_Some[OF upd_partial_Some[OF q]]
      by (simp add: goals_setScore gameTime_setScore setGameTime_def round3_def)
  qed
  from assms(2) show ?thesis
  proof
    assume d: "dataLine = ''(team 100 \"TeamA\" \"TeamB\" 1 0)''"
    show ?thesis
      using core[of "''\"TeamA\"''" "''\"TeamB\"''"] names[of "''\"TeamA\"''" "''\"TeamB\"''"] team_goals
      by (simp add: d ULG_parseTeamLine_def team_line_quoted_tree assms(1) Let_def nth_opt_def
            upd_partial_log st1_def underscores_to_spaces_def parseInt_def parseInt_str_def
            strip_sign_def is_ws_def is_digit_def digit_val_def digits_val_def num_def)
  next
    assume d: "dataLine = ''(team 100 TeamA TeamB 1 0)''"
    show ?thesis
      using core[of "''TeamA''" "''TeamB''"] names[of "''TeamA''" "''TeamB''"] team_goals
      by (simp add: d ULG_parseTeamLine_def team_line_plain_tree assms(1) Let_def nth_opt_def
            upd_partial_log st1_def underscores_to_spaces_def parseInt_def parseInt_str_def
            strip_sign_def is_ws_def is_digit_def digit_val_def digits_val_def num_def)
  qed
qed

text \<open>The quoted line on the state behind the header.\<close>

theorem C8_team_line_witness:
  "\<exists>p'. partialState (ps_storage (snd (ULG_parseTeamLine ''(team 100 \"TeamA\" \"TeamB\" 1 0)'' example_state))) = Some p'
     \<and> goalsLeft (score p') = Fin 1 \<and> goalsRight (score p') = Fin 0 \<and> gameTime p' = Fin 10
     \<and> td_name (leftTeam (ps_log (snd (ULG_parseTeamLine ''(team 100 \"TeamA\" \"TeamB\" 1 0)'' example_state))))
         = ''\"TeamA\"''
     \<and> td_name (rightTeam (ps_log (snd (ULG_parseTeamLine ''(team 100 \"TeamA\" \"TeamB\" 1 0)'' example_state))))
         = ''\"TeamB\"''"
  using C8_team_line[of example_state "new_PartialWorldState (Fin 0) (Fin (1 / 10)) (Fin 0)"
      "''(team 100 \"TeamA\" \"TeamB\" 1 0)''"]
  by (simp add: example_state_def new_LogParserStorage_def)

text \<open>
  The claim as stated fails: the left team name after the quoted line is not \<^verbatim>\<open>TeamA\<close>.
\<close>

theorem C8_team_name_counterexample:
  "td_name (leftTeam (ps_log (snd (ULG_parseTeamLine ''(team 100 \"TeamA\" \"TeamB\" 1 0)'' example_state))))
     \<noteq> ''TeamA''"
  by (simp add: run_defs)

section \<open>Agent lines of a 3D replay of version 0\<close>

lemma nth_opt_array_set:
  "array_index k = Some n \<Longrightarrow> nth_opt (array_set xs k v) n = Some (Some v)"
  by (auto simp: array_set_def nth_opt_def nth_append)

lemma set_side_agentStates:
  "partialState (ps_storage st) = Some p \<Longrightarrow>
     \<exists>p'. partialState (ps_storage (set_side leftSide team il arr st)) = Some p'
          \<and> side_agentStates leftSide p' = arr"
  by (simp add: set_side_def upd_partial_def side_agentStates_def)

lemma pose_V0_sample:
  "parseInt (Some ''1000'') 10 = Fin 1000 \<and> parseInt (Some ''2000'') 10 = Fin 2000
   \<and> parseInt (Some ''500'') 10 = Fin 500 \<and> parseInt (Some ''0'') 10 = Fin 0"
  by (simp add: parseInt_def parseInt_str_def strip_sign_def is_ws_def is_digit_def digit_val_def
        digits_val_def num_def)

lemma example_replay_state_facts:
  "partialState (ps_storage example_replay_state)
     = Some ((new_PartialWorldState (Fin 0) (Fin (1 / 5)) (Fin 0))
          \<lparr>gameState := \<lparr>gs_ref = 2, gs_time = Fin 0, playMode = ''PlayOn''\<rparr>, pws_fresh := 3\<rparr>)
   \<and> log_type (ps_log example_replay_state) = THREED
   \<and> version (ps_log example_replay_state) = Fin 0"
  by (simp add: example_replay_state_def parseStateLine_def new_Replay_def new_SimulationLog_def
        new_LogParserStorage_def updateFrequency_def getNumber_def obj_get_def paramsV66_def paramsV63_def
        paramsV62_def dec_def example_util_def new_TeamDescription_def types_map_def append_partial_def
        upd_partial_def setGameTime_def setPlaymode_def setScore_def new_PartialWorldState_def
        new_GameScore_def round3_def js_eq_def js_truthy_def parseInt_def parseInt_str_def parseFloat_str_def
        strip_sign_def is_ws_def is_digit_def digit_val_def digits_val_def num_def nth_opt_def
        parse_exponent_def Let_def)

lemma split_sp_first_char:
  assumes "split_sp s = (c # w) # ws"
  shows "charAt s 0 = [c]"
proof (cases s)
  case Nil
  with assms show ?thesis by simp
next
  case (Cons c' cs)
  with assms show ?thesis
    by (cases "split_sp cs") (auto simp: charAt_def split: if_splits)
qed

lemma agent_pose_sample:
  "os_x (encodeAgentState m f (Fin 1) (Fin (1 / 2)) (Fin (- 2)) (Fin 0) (Fin 0) (Fin 0) (Fin 1) js ds) = Fin 1
   \<and> os_y (encodeAgentState m f (Fin 1) (Fin (1 / 2)) (Fin (- 2)) (Fin 0) (Fin 0) (Fin 0) (Fin 1) js ds) = Fin (1 / 2)
   \<and> os_z (encodeAgentState m f (Fin 1) (Fin (1 / 2)) (Fin (- 2)) (Fin 0) (Fin 0) (Fin 0) (Fin 1) js ds) = Fin (- 2)
   \<and> os_qx (encodeAgentState m f (Fin 1) (Fin (1 / 2)) (Fin (- 2)) (Fin 0) (Fin 0) (Fin 0) (Fin 1) js ds) = Fin 0
   \<and> os_qy (encodeAgentState m f (Fin 1) (Fin (1 / 2)) (Fin (- 2)) (Fin 0) (Fin 0) (Fin 0) (Fin 1) js ds) = Fin 0
   \<and> os_qz (encodeAgentState m f (Fin 1) (Fin (1 / 2)) (Fin (- 2)) (Fin 0) (Fin 0) (Fin 0) (Fin 1) js ds) = Fin 0
   \<and> os_qw (encodeAgentState m f (Fin 1) (Fin (1 / 2)) (Fin (- 2)) (Fin 0) (Fin 0) (Fin 0) (Fin 1) js ds) = Fin 1"
  by (simp add: encodeAgentState_def encodeObjectState_def os_x_def os_y_def os_z_def
        os_qx_def os_qy_def os_qz_def os_qw_def or_zero_def nth_opt_def js_truthy_def)

lemma agent_V0_3D_plain:
  assumes "partialState (ps_storage st) = Some p"
    and "tag \<noteq> ''L''" and "tag \<noteq> ''R''"
    and sp: "split_sp dataLine
               = tag # unum # [''1000'', ''2000'', ''500'', ''1000'', ''0'', ''0'', ''0''] @ joints"
  shows "\<exists>m js. snd (parseAgentState_V0_3D dataLine st leftSide)
      = set_side leftSide (side_team leftSide st) (side_indexList leftSide st)
          (array_set (side_agentStates leftSide p) (parseInt_str 10 unum)
             (encodeAgentState m (Fin 0) (Fin 1) (Fin (1 / 2)) (Fin (- 2)) (Fin 0) (Fin 0) (Fin 0) (Fin 1)
                js [])) st"
  using pose_V0_sample assms(2,3)
  apply (simp add: parseAgentState_V0_3D_def sp assms(1) Let_def nth_opt_def)
  apply (intro conjI impI exI)
  apply (rule refl)+
  done

lemma agent_V0_3D_model:
  assumes "partialState (ps_storage st) = Some p"
    and "tag = ''L'' \<or> tag = ''R''"
    and sp: "split_sp dataLine
               = tag # unum # model # [''1000'', ''2000'', ''500'', ''1000'', ''0'', ''0'', ''0''] @ joints"
  shows "\<exists>team il m js. snd (parseAgentState_V0_3D dataLine st leftSide)
      = set_side leftSide team il
          (array_set (side_agentStates leftSide p) (parseInt_str 10 unum)
             (encodeAgentState m (Fin 0) (Fin 1) (Fin (1 / 2)) (Fin (- 2)) (Fin 0) (Fin 0) (Fin 0) (Fin 1)
                js [])) st"
  using pose_V0_sample assms(2)
  apply (simp add: parseAgentState_V0_3D_def sp assms(1) Let_def nth_opt_def)
  apply (intro conjI impI exI)
  apply (rule refl)+
  done

text \<open>
  Claim C7, as the code has it. In a 3D replay of version 0, while a partial state exists,
  take an agent line whose pieces between spaces are the tag, a player number that is an
  array index, for the tags \<^verbatim>\<open>L\<close> and \<^verbatim>\<open>R\<close> one model token, the seven fields
  \<^verbatim>\<open>1000 2000 500 1000 0 0 0\<close>, and any number of joint angles. The line stores for that
  player, on the side of the tag, an agent state with position \<open>(1, 0.5, -2)\<close> and
  orientation \<open>(0, 0, 0, 1)\<close>.
\<close>

theorem C7_agent_pose_V0_3D:
  assumes "partialState (ps_storage st) = Some p"
    and "log_type (ps_log st) = THREED" and "version (ps_log st) = Fin 0"
    and "split_sp dataLine
           = tag # unum # model @ [''1000'', ''2000'', ''500'', ''1000'', ''0'', ''0'', ''0''] @ joints"
    and "(tag = ''l'' \<or> tag = ''r'') \<and> model = [] \<or> (tag = ''L'' \<or> tag = ''R'') \<and> length model = 1"
    and "array_index (parseInt_str 10 unum) = Some n"
  shows "\<exists>p' a. partialState (ps_storage (snd
             (Replay_line U J (select_parseBallFcn (ps_log st)) (select_parseAgentFcn U (ps_log st))
                dataLine st))) = Some p'
           \<and> nth_opt (side_agentStates (tag = ''l'' \<or> tag = ''L'') p') n = Some (Some a)
           \<and> os_x a = Fin 1 \<and> os_y a = Fin (1 / 2) \<and> os_z a = Fin (- 2)
           \<and> os_qx a = Fin 0 \<and> os_qy a = Fin 0 \<and> os_qz a = Fin 0 \<and> os_qw a = Fin 1"
proof -
  let ?left = "tag = ''l'' \<or> tag = ''L''"
  have sel: "select_parseAgentFcn U (ps_log st) = parseAgentState_V0_3D"
    by (simp add: select_parseAgentFcn_def assms(2) assms(3) js_eq_def)
  have tags: "tag = ''l'' \<or> tag = ''r'' \<or> tag = ''L'' \<or> tag = ''R''" using assms(5) by blast
  then obtain c where tc: "tag = [c]" by auto
  have c0: "charAt dataLine 0 = tag"
    using split_sp_first_char[of dataLine c "[]"] assms(4) by (simp add: tc)
  have disp: "snd (Replay_line U J (select_parseBallFcn (ps_log st)) (select_parseAgentFcn U (ps_log st)) dataLine st)
      = snd (parseAgentState_V0_3D dataLine st ?left)"
    using tags c0 by (auto simp: Replay_line_def sel Let_def)
  have "\<exists>team il m js. snd (parseAgentState_V0_3D dataLine st ?left)
      = set_side ?left team il
          (array_set (side_agentStates ?left p) (parseInt_str 10 unum)
             (encodeAgentState m (Fin 0) (Fin 1) (Fin (1 / 2)) (Fin (- 2)) (Fin 0) (Fin 0) (Fin 0) (Fin 1)
                js [])) st"
  proof (cases "tag = ''L'' \<or> tag = ''R''")
    case True
    with assms(5) obtain m where m: "model = [m]" by (cases model) auto
    from agent_V0_3D_model[OF assms(1) True, of dataLine unum m joints ?left] assms(4) m
    show ?thesis by simp
  next
    case False
    with assms(5) have m: "model = []" by auto
    from False have nl: "tag \<noteq> ''L''" and nr: "tag \<noteq> ''R''" by auto
    from agent_V0_3D_plain[OF assms(1) nl nr, of dataLine unum joints ?left] assms(4) m
    show ?thesis by auto
  qed
  then obtain team il m js where agent: "snd (parseAgentState_V0_3D dataLine st ?left)
      = set_side ?left team il
          (array_set (side_agentStates ?left p) (parseInt_str 10 unum)
             (encodeAgentState m (Fin 0) (Fin 1) (Fin (1 / 2)) (Fin (- 2)) (Fin 0) (Fin 0) (Fin 0) (Fin 1)
                js [])) st" by blast
  define a where "a = encodeAgentState m (Fin 0) (Fin 1) (Fin (1 / 2)) (Fin (- 2)) (Fin 0) (Fin 0) (Fin 0)
      (Fin 1) js []"
  from set_side_agentStates[OF assms(1), of ?left team il
      "array_set (side_agentStates ?left p) (parseInt_str 10 unum) a"]
  obtain p' where p': "partialState (ps_storage (snd (parseAgentState_V0_3D dataLine st ?left))) = Some p'"
    and arr: "side_agentStates ?left p' = array_set (side_agentStates ?left p) (parseInt_str 10 unum) a"
    unfolding agent a_def by blast
  have vals: "os_x a = Fin 1 \<and> os_y a = Fin (1 / 2) \<and> os_z a = Fin (- 2)
           \<and> os_qx a = Fin 0 \<and> os_qy a = Fin 0 \<and> os_qz a = Fin 0 \<and> os_qw a = Fin 1"
    unfolding a_def by (rule agent_pose_sample)
  have "nth_opt (side_agentStates ?left p') n = Some (Some a)"
    by (simp only: arr nth_opt_array_set[OF assms(6)])
  with p' vals show ?thesis unfolding disp by blast
qed

theorem C7_agent_pose_V0_3D_witness:
  "(\<exists>p' a. partialState (ps_storage (snd
       (Replay_line example_util no_json (select_parseBallFcn (ps_log example_replay_state))
          (select_parseAgentFcn example_util (ps_log example_replay_state))
          ''l 5 1000 2000 500 1000 0 0 0'' example_replay_state))) = Some p'
     \<and> nth_opt (leftAgentStates p') 5 = Some (Some a)
     \<and> os_x a = Fin 1 \<and> os_y a = Fin (1 / 2) \<and> os_z a = Fin (- 2)
     \<and> os_qx a = Fin 0 \<and> os_qy a = Fin 0 \<and> os_qz a = Fin 0 \<and> os_qw a = Fin 1)
   \<and> (\<exists>p' a. partialState (ps_storage (snd
       (Replay_line example_util no_json (select_parseBallFcn (ps_log example_replay_state))
          (select_parseAgentFcn example_util (ps_log example_replay_state))
          ''R 7 nao0 1000 2000 500 1000 0 0 0 -1500 300'' example_replay_state))) = Some p'
     \<and> nth_opt (rightAgentStates p') 7 = Some (Some a)
     \<and> os_x a = Fin 1 \<and> os_y a = Fin (1 / 2) \<and> os_z a = Fin (- 2)
     \<and> os_qx a = Fin 0 \<and> os_qy a = Fin 0 \<and> os_qz a = Fin 0 \<and> os_qw a = Fin 1)"
proof -
  have i: "array_index (parseInt_str 10 ''5'') = Some 5" "array_index (parseInt_str 10 ''7'') = Some 7"
    by (simp_all add: array_index_def parseInt_str_def strip_sign_def is_ws_def is_digit_def digit_val_def
          digits_val_def num_def)
  have s1: "split_sp ''l 5 1000 2000 500 1000 0 0 0''
      = ''l'' # ''5'' # [] @ [''1000'', ''2000'', ''500'', ''1000'', ''0'', ''0'', ''0''] @ []"
    by simp
  have s2: "split_sp ''R 7 nao0 1000 2000 500 1000 0 0 0 -1500 300''
      = ''R'' # ''7'' # [''nao0''] @ [''1000'', ''2000'', ''500'', ''1000'', ''0'', ''0'', ''0'']
          @ [''-1500'', ''300'']"
    by simp
  note f = example_replay_state_facts
  from C7_agent_pose_V0_3D[OF f[THEN conjunct1] f[THEN conjunct2, THEN conjunct1]
      f[THEN conjunct2, THEN conjunct2] s1 _ i(1), of example_util no_json]
    C7_agent_pose_V0_3D[OF f[THEN conjunct1] f[THEN conjunct2, THEN conjunct1]
      f[THEN conjunct2, THEN conjunct2] s2 _ i(2), of example_util no_json]
  show ?thesis by (simp add: side_agentStates_def)
qed

text \<open>
  Claim C7 as the specification words it does not hold for the tags \<^verbatim>\<open>L\<close> and \<^verbatim>\<open>R\<close>: there
  the token after the player number is the model, and a line with the seven fields right
  after the player number has too few pieces and stores nothing.
\<close>

theorem C7_model_tag_nine_tokens:
  "snd (Replay_line example_util no_json (select_parseBallFcn (ps_log example_replay_state))
          (select_parseAgentFcn example_util (ps_log example_replay_state))
          ''L 5 1000 2000 500 1000 0 0 0'' example_replay_state) = example_replay_state
   \<and> partialState (ps_storage example_replay_state) \<noteq> None
   \<and> log_type (ps_log example_replay_state) = THREED
   \<and> version (ps_log example_replay_state) = Fin 0"
proof -
  note f = example_replay_state_facts
  have sel: "select_parseAgentFcn example_util (ps_log example_replay_state) = parseAgentState_V0_3D"
    using f by (simp add: select_parseAgentFcn_def js_eq_def)
  have "snd (parseAgentState_V0_3D ''L 5 1000 2000 500 1000 0 0 0'' example_replay_state True)
          = example_replay_state"
    using f by (simp add: parseAgentState_V0_3D_def Let_def)
  then show ?thesis using f by (simp add: Replay_line_def sel Let_def charAt_def)
qed

section \<open>Parameter blocks that fail to decode\<close>

text \<open>
  The Replay decoder parses the JSON text before it touches the parameter map, so a line
  with malformed JSON leaves all three kinds of parameters as they were.
\<close>

lemma updateFrequency_environmentParams:
  "environmentParams (snd (updateFrequency U lg)) = environmentParams lg"
  by (simp add: updateFrequency_def split: sum.splits option.splits)

lemma Replay_params_kept:
  assumes "J (slice1 dataLine 3) = None"
  shows "environmentParams (ps_log (snd (parseEnvironmentParams U J dataLine st)))
           = environmentParams (ps_log st)"
    and "playerParams (ps_log (snd (parsePlayerParams J dataLine st))) = playerParams (ps_log st)"
proof -
  obtain e lg2 where u: "updateFrequency U (ps_log st) = (e, lg2)"
    by (cases "updateFrequency U (ps_log st)")
  with updateFrequency_environmentParams[of U "ps_log st"]
  have "environmentParams lg2 = environmentParams (ps_log st)" by simp
  then show "environmentParams (ps_log (snd (parseEnvironmentParams U J dataLine st)))
           = environmentParams (ps_log st)"
    using assms u by (cases e) (simp_all add: parseEnvironmentParams_def)
  show "playerParams (ps_log (snd (parsePlayerParams J dataLine st))) = playerParams (ps_log st)"
    using assms by (simp add: parsePlayerParams_def)
qed

lemma Replay_playerTypes_kept:
  assumes "\<And>i. J (slice1 dataLine i) = None"
  shows "playerTypes (ps_log (snd (parsePlayerTypeParams J dataLine st))) = playerTypes (ps_log st)"
  using assms by (simp add: parsePlayerTypeParams_def Let_def)

lemma ULG_playerTypes_kept:
  assumes "SymbolTreeParser_parse dataLine = Inl e"
  shows "playerTypes (ps_log (snd (ULG_parsePlayerTypeLine U dataLine st))) = playerTypes (ps_log st)"
  using assms by (simp add: ULG_parsePlayerTypeLine_def parseParameters_def)

text \<open>
  The ULG decoder clears the map of the server (and of the player) parameters before it
  parses the line, so after a line on which the token-tree parser throws the map is empty.
\<close>

lemma ULG_params_cleared:
  assumes "SymbolTreeParser_parse dataLine = Inl e"
  shows "paramObj (environmentParams (ps_log (snd (ULG_parseServerParamLine U dataLine st)))) = JObj []"
    and "paramObj (playerParams (ps_log (snd (ULG_parsePlayerParamLine dataLine st)))) = JObj []"
  using assms
  by (simp_all add: ULG_parseServerParamLine_def ULG_parsePlayerParamLine_def parseParameters_def
        pm_clear_def Let_def)

text \<open>
  Claim C5 fails on the ULG decoder. Behind the header the server parameters hold the
  default step; the line \<^verbatim>\<open>(server_param (simulator_step 100)\<close>, which lacks its closing
  parenthesis, makes the token-tree parser throw, and the body pass leaves the map empty.
\<close>

theorem C5_ULG_server_param_cleared:
  "paramObj (environmentParams (ps_log example_state)) = JObj [(''simulator_step'', JNum (Fin 100))]
   \<and> SymbolTreeParser_parse ''(server_param (simulator_step 100)''
       = Inl (Error ''Invalid tree structure in input: (server_param (simulator_step 100)'')
   \<and> paramObj (environmentParams (ps_log (snd
        (ULG_line example_util ''(server_param (simulator_step 100)'' example_state)))) = JObj []"
proof -
  have p: "SymbolTreeParser_parse ''(server_param (simulator_step 100)''
       = Inl (Error ''Invalid tree structure in input: (server_param (simulator_step 100)'')"
    by (simp add: SymbolTreeParser_parse_def charAt_def push_value_def)
  have b: "paramObj (environmentParams (ps_log example_state)) = JObj [(''simulator_step'', JNum (Fin 100))]"
    by (simp add: example_state_def new_SServerLog_def new_SimulationLog_def updateFrequency_def
          getNumber_def obj_get_def example_util_def js_truthy_def Let_def)
  have "paramObj (environmentParams (ps_log (snd
        (ULG_line example_util ''(server_param (simulator_step 100)'' example_state)))) = JObj []"
    using ULG_params_cleared(1)[OF p] by (simp add: ULG_line_def)
  with p b show ?thesis by simp
qed

text \<open>So the map after the line is not the map before it.\<close>

theorem C5_ULG_server_param_cleared_witness:
  "paramObj (environmentParams (ps_log (snd
      (ULG_line example_util ''(server_param (simulator_step 100)'' example_state))))
     \<noteq> paramObj (environmentParams (ps_log example_state))"
  using C5_ULG_server_param_cleared by simp

section \<open>The cursor and the lines of its text\<close>

lemma scan_parts:
  assumes "scan r = Some (tok, r2)"
  shows "\<exists>eols. r = eols @ tok @ r2 \<and> (\<forall>c\<in>set eols. is_eol c) \<and> tok \<noteq> []
           \<and> (\<forall>c\<in>set tok. \<not> is_eol c) \<and> (r2 = [] \<or> is_eol (hd r2))"
proof -
  define r1 where "r1 = dropWhile is_eol r"
  from assms have t: "tok = takeWhile (\<lambda>c. \<not> is_eol c) r1" and ne: "tok \<noteq> []"
    and r2: "r2 = dropWhile (\<lambda>c. \<not> is_eol c) r1"
    by (auto simp: scan_def Let_def r1_def split: if_splits)
  have a: "r = takeWhile is_eol r @ r1" by (simp add: r1_def)
  have b: "r1 = tok @ r2" by (simp add: t r2)
  have c: "\<forall>c\<in>set (takeWhile is_eol r). is_eol c" by (auto dest: set_takeWhileD)
  have d: "\<forall>c\<in>set tok. \<not> is_eol c" unfolding t by (auto dest: set_takeWhileD)
  have e: "r2 = [] \<or> is_eol (hd r2)"
    unfolding r2 using hd_dropWhile[of "\<lambda>c. \<not> is_eol c" r1] by auto
  from a b c d e ne show ?thesis by (metis append_assoc)
qed

lemma scan_of_parts:
  assumes "\<forall>c\<in>set eols. is_eol c" and "tok \<noteq> []" and "\<forall>c\<in>set tok. \<not> is_eol c"
    and "r2 = [] \<or> is_eol (hd r2)"
  shows "scan (eols @ tok @ r2) = Some (tok, r2)"
proof -
  obtain c cs where tok: "tok = c # cs" and c: "\<not> is_eol c"
    using assms(2) assms(3) by (cases tok) auto
  have a: "dropWhile is_eol (eols @ tok @ r2) = tok @ r2"
    using assms(1) c by (simp add: tok dropWhile_append2)
  have b: "takeWhile (\<lambda>c. \<not> is_eol c) (tok @ r2) = tok"
    using assms(3) assms(4) by (cases r2) auto
  have d: "dropWhile (\<lambda>c. \<not> is_eol c) (tok @ r2) = r2"
    using assms(3) assms(4) by (cases r2) (auto simp: dropWhile_append2)
  show ?thesis using assms(2) by (simp add: scan_def Let_def a b d)
qed

lemma takeWhile_not_eol_Nil:
  "(xs \<noteq> [] \<Longrightarrow> \<not> is_eol (hd xs)) \<Longrightarrow> takeWhile (\<lambda>c. \<not> is_eol c) xs = [] \<longleftrightarrow> xs = []"
  by (cases xs) auto

lemma scan_None_iff: "scan r = None \<longleftrightarrow> (\<forall>c\<in>set r. is_eol c)"
proof -
  have t: "takeWhile (\<lambda>c. \<not> is_eol c) (dropWhile is_eol r) = [] \<longleftrightarrow> dropWhile is_eol r = []"
    by (rule takeWhile_not_eol_Nil) (rule hd_dropWhile)
  have d: "dropWhile is_eol r = [] \<longleftrightarrow> (\<forall>c\<in>set r. is_eol c)"
    by (simp add: dropWhile_eq_Nil_conv)
  have "scan r = None \<longleftrightarrow> takeWhile (\<lambda>c. \<not> is_eol c) (dropWhile is_eol r) = []"
    by (simp add: scan_def Let_def)
  with t d show ?thesis by simp
qed

lemma regExp_exec_scan:
  assumes "i \<le> length s"
  shows "regExp_exec s i =
           (case scan (drop i s) of
              None \<Rightarrow> (None, 0)
            | Some (tok, r2) \<Rightarrow> (Some tok, length s - length r2))"
proof (cases "scan (drop i s)")
  case None
  then have "\<forall>c\<in>set (drop i s). is_eol c" by (simp add: scan_None_iff)
  then have tw: "takeWhile is_eol (drop i s) = drop i s" by (simp add: takeWhile_eq_all_conv)
  have "drop (i + length (drop i s)) s = []" using assms by simp
  then show ?thesis using None by (simp add: regExp_exec_def Let_def tw del: length_drop)
next
  case (Some a)
  obtain tok r2 where a: "a = (tok, r2)" by (cases a)
  from scan_parts[OF Some[unfolded a]] obtain eols where
    p: "drop i s = eols @ tok @ r2" "\<forall>c\<in>set eols. is_eol c" "tok \<noteq> []"
       "\<forall>c\<in>set tok. \<not> is_eol c" "r2 = [] \<or> is_eol (hd r2)" by blast
  have "length s - i = length eols + length tok + length r2"
    using arg_cong[OF p(1), of length] by simp
  then have "length s - length r2 = i + length eols + length tok" using assms by linarith
  with regExp_exec_segment[OF p] Some a show ?thesis by simp
qed

lemma drop_to_suffix:
  assumes "i \<le> length s" and "drop i s = pre @ r2"
  shows "drop (length s - length r2) s = r2"
proof -
  have s: "s = take i s @ pre @ r2" using assms(2) by (metis append_take_drop_id)
  have "length s - length r2 = length (take i s @ pre)"
    using arg_cong[OF s, of length] by simp
  then show ?thesis using s by (metis append_assoc append_eq_conv_conj)
qed

text \<open>One call of \<^verbatim>\<open>next\<close>, read on the text behind the cursor.\<close>

lemma it_next_scan:
  assumes "it_wf it"
  shows "it_next it =
     (case scan (it_rest it) of
        None \<Rightarrow> (None, it\<lparr>it_line := None\<rparr>)
      | Some (tok, r2) \<Rightarrow>
          (if it_partialData it \<and> r2 = [] then (None, it\<lparr>it_line := None\<rparr>)
           else (Some tok, it\<lparr>it_lastIndex := length (it_data it) - length r2, it_line := Some tok\<rparr>)))"
proof (cases "scan (it_rest it)")
  case None
  then show ?thesis
    using regExp_exec_scan[OF assms[unfolded it_wf_def]]
    by (simp add: it_next_def it_rest_def Let_def)
next
  case (Some a)
  obtain tok r2 where a: "a = (tok, r2)" by (cases a)
  have "length r2 < length (it_rest it)" using scan_shorter Some a by blast
  then have "length r2 < length (it_data it)" by (simp add: it_rest_def)
  then have "length (it_data it) - length r2 = length (it_data it) \<longleftrightarrow> r2 = []"
    by (cases r2) auto
  then show ?thesis
    using regExp_exec_scan[OF assms[unfolded it_wf_def]] Some a
    by (simp add: it_next_def it_rest_def Let_def)
qed

lemma it_rest_after:
  assumes "it_wf it" and "scan (it_rest it) = Some (tok, r2)"
  shows "it_rest (it\<lparr>it_lastIndex := length (it_data it) - length r2, it_line := x\<rparr>) = r2"
    and "it_wf (it\<lparr>it_lastIndex := length (it_data it) - length r2, it_line := x\<rparr>)"
proof -
  from scan_parts[OF assms(2)] obtain eols where p: "it_rest it = eols @ tok @ r2" by blast
  then have "drop (it_lastIndex it) (it_data it) = (eols @ tok) @ r2" by (simp add: it_rest_def)
  from drop_to_suffix[OF assms(1)[unfolded it_wf_def] this]
  show "it_rest (it\<lparr>it_lastIndex := length (it_data it) - length r2, it_line := x\<rparr>) = r2"
    by (simp add: it_rest_def)
  show "it_wf (it\<lparr>it_lastIndex := length (it_data it) - length r2, it_line := x\<rparr>)"
    by (simp add: it_wf_def)
qed

lemma avail_Nil_rest: "fst (avail r) = [] \<Longrightarrow> snd (avail r) = r"
  by (subst (asm) avail.simps, subst avail.simps) (auto split: option.splits prod.splits if_splits)

lemma it_next_lines:
  assumes "it_wf it" and "it_next it = (x, it')"
  shows "it_wf it' \<and> it_data it' = it_data it \<and> it_partialData it' = it_partialData it
         \<and> it_line it' = x
         \<and> (case x of None \<Rightarrow> lines_of it = [] \<and> it_rest it' = it_rest it
                       | Some l \<Rightarrow> lines_of it = l # lines_of it')
         \<and> (it_partialData it \<longrightarrow> snd (avail (it_rest it')) = snd (avail (it_rest it)))"
proof (cases "scan (it_rest it)")
  case None
  with it_next_scan[OF assms(1)] assms(2) have it': "it' = it\<lparr>it_line := None\<rparr>" and x: "x = None"
    by auto
  have "lines_of it = []"
    using None by (simp add: lines_of_def avail.simps[of "it_rest it"] all_lines.simps[of "it_rest it"])
  then show ?thesis using assms(1) by (simp add: it' x it_wf_def it_rest_def)
next
  case (Some a)
  obtain tok r2 where a: "a = (tok, r2)" by (cases a)
  note sc = Some[unfolded a]
  show ?thesis
  proof (cases "it_partialData it \<and> r2 = []")
    case True
    with it_next_scan[OF assms(1)] assms(2) sc
    have it': "it' = it\<lparr>it_line := None\<rparr>" and x: "x = None" by auto
    have "lines_of it = []"
      using True sc by (simp add: lines_of_def avail.simps[of "it_rest it"])
    then show ?thesis using assms(1) by (simp add: it' x it_wf_def it_rest_def)
  next
    case False
    with it_next_scan[OF assms(1)] assms(2) sc
    have it': "it' = it\<lparr>it_lastIndex := length (it_data it) - length r2, it_line := Some tok\<rparr>"
      and x: "x = Some tok" by auto
    have r: "it_rest it' = r2" and w: "it_wf it'"
      unfolding it' using it_rest_after[OF assms(1) sc] by auto
    have pd: "it_partialData it' = it_partialData it" by (simp add: it')
    have l: "lines_of it = tok # lines_of it'"
      using False sc
      by (auto simp: lines_of_def r pd avail.simps[of "it_rest it"] all_lines.simps[of "it_rest it"]
               split: prod.splits)
    have s: "it_partialData it \<longrightarrow> snd (avail (it_rest it')) = snd (avail (it_rest it))"
      using False sc by (auto simp: r avail.simps[of "it_rest it"] split: prod.splits)
    from r w l s show ?thesis by (simp add: it' x)
  qed
qed

text \<open>
  What the loop of a body pass does, on the lines still to be decoded: it decodes a prefix
  of them in order and counts those for which the line decoder says so; it stops with a
  line pending only when the counter has reached \<^verbatim>\<open>maxStates\<close>.
\<close>

lemma body_loop_lines:
  assumes "it_wf it" and "line = it_line it" and "line = None \<longrightarrow> lines_of it = []"
    and "body_loop h line it st cnt dcd = (line', it', st', cnt', dcd')"
  shows "it_wf it' \<and> line' = it_line it' \<and> it_data it' = it_data it
         \<and> it_partialData it' = it_partialData it
         \<and> (\<exists>ds. dcd' = dcd @ ds \<and> todo it = map fst ds @ todo it'
                \<and> st' = run_lines h st (map fst ds) \<and> cnt' = cnt + length (filter snd ds))
         \<and> (it_partialData it \<longrightarrow> snd (avail (it_rest it')) = snd (avail (it_rest it)))
         \<and> (line' = None \<longrightarrow> lines_of it' = [])
         \<and> (line' \<noteq> None \<longrightarrow> \<not> cnt' < maxStates (ps_storage st'))"
  using assms
proof (induction h line it st cnt dcd rule: body_loop.induct)
  case (1 h line it st cnt decoded)
  show ?case
  proof (cases line)
    case None
    with "1.prems" show ?thesis
      by (simp add: body_loop.simps[of h None] run_lines_def)
  next
    case (Some l)
    show ?thesis
    proof (cases "cnt < maxStates (ps_storage st)")
      case False
      with Some "1.prems" show ?thesis
        by (auto simp: body_loop.simps[of h "Some l"] run_lines_def)
    next
      case True
      obtain counts st1 where h: "h l st = (counts, st1)" by (cases "h l st")
      obtain line1 it1 where nx: "it_next it = (line1, it1)" by (cases "it_next it")
      note nl = it_next_lines[OF "1.prems"(1) nx]
      have run: "body_loop h line1 it1 st1 (if counts then cnt + 1 else cnt) (decoded @ [(l, counts)])
                  = (line', it', st', cnt', dcd')"
        using "1.prems"(4) Some True h nx by (simp add: body_loop.simps[of h "Some l"])
      have e: "line1 = None \<longrightarrow> lines_of it1 = []"
        using nl by (auto simp: lines_of_def)
      from "1.IH"[OF Some True h[symmetric] nx[symmetric] _ _ e run] nl
      have ih: "it_wf it' \<and> line' = it_line it' \<and> it_data it' = it_data it1
         \<and> it_partialData it' = it_partialData it1
         \<and> (\<exists>ds. dcd' = (decoded @ [(l, counts)]) @ ds \<and> todo it1 = map fst ds @ todo it'
                \<and> st' = run_lines h st1 (map fst ds)
                \<and> cnt' = (if counts then cnt + 1 else cnt) + length (filter snd ds))
         \<and> (it_partialData it1 \<longrightarrow> snd (avail (it_rest it')) = snd (avail (it_rest it1)))
         \<and> (line' = None \<longrightarrow> lines_of it' = [])
         \<and> (line' \<noteq> None \<longrightarrow> \<not> cnt' < maxStates (ps_storage st'))"
        by simp
      then obtain ds where ds: "dcd' = (decoded @ [(l, counts)]) @ ds" "todo it1 = map fst ds @ todo it'"
          "st' = run_lines h st1 (map fst ds)"
          "cnt' = (if counts then cnt + 1 else cnt) + length (filter snd ds)" by blast
      have il: "it_line it = Some l" using "1.prems"(2) Some by simp
      have t: "todo it = l # todo it1"
      proof (cases line1)
        case None
        with nl e show ?thesis by (simp add: todo_def il)
      next
        case (Some l1)
        with nl show ?thesis by (simp add: todo_def il)
      qed
      have "dcd' = decoded @ ((l, counts) # ds) \<and> todo it = map fst ((l, counts) # ds) @ todo it'
            \<and> st' = run_lines h st (map fst ((l, counts) # ds))
            \<and> cnt' = cnt + length (filter snd ((l, counts) # ds))"
        using ds t h by (simp add: run_lines_def)
      then have "\<exists>ds. dcd' = decoded @ ds \<and> todo it = map fst ds @ todo it'
                \<and> st' = run_lines h st (map fst ds) \<and> cnt' = cnt + length (filter snd ds)"
        by blast
      with ih nl show ?thesis by simp
    qed
  qed
qed

section \<open>What the line decoders leave alone\<close>

lemma framedI:
  assumes "\<And>l st d. h l (with_derived d st) = (fst (h l st), with_derived d (snd (h l st)))"
    and "\<And>l st. maxStates (ps_storage (snd (h l st))) = maxStates (ps_storage st)"
  shows "framed h"
  using assms by (simp add: framed_def)

named_theorems wd \<open>rules that move the derived fields outwards\<close>

lemma sd_reads [wd]:
  "states (set_derived d lg) = states lg"
  "frequency (set_derived d lg) = frequency lg"
  "environmentParams (set_derived d lg) = environmentParams lg"
  "playerParams (set_derived d lg) = playerParams lg"
  "playerTypes (set_derived d lg) = playerTypes lg"
  "leftTeam (set_derived d lg) = leftTeam lg"
  "rightTeam (set_derived d lg) = rightTeam lg"
  "log_type (set_derived d lg) = log_type lg"
  "version (set_derived d lg) = version lg"
  "log_fresh (set_derived d lg) = log_fresh lg"
  "fullyLoaded (set_derived d lg) = fullyLoaded lg"
  by (simp_all add: set_derived_def split: prod.splits)

lemma sd_updates [wd]:
  "states_update f1 (set_derived d lg) = set_derived d (states_update f1 lg)"
  "frequency_update f2 (set_derived d lg) = set_derived d (frequency_update f2 lg)"
  "environmentParams_update f3 (set_derived d lg) = set_derived d (environmentParams_update f3 lg)"
  "playerParams_update f4 (set_derived d lg) = set_derived d (playerParams_update f4 lg)"
  "playerTypes_update f5 (set_derived d lg) = set_derived d (playerTypes_update f5 lg)"
  "leftTeam_update f6 (set_derived d lg) = set_derived d (leftTeam_update f6 lg)"
  "rightTeam_update f7 (set_derived d lg) = set_derived d (rightTeam_update f7 lg)"
  "log_fresh_update f8 (set_derived d lg) = set_derived d (log_fresh_update f8 lg)"
  by (simp_all add: set_derived_def split: prod.splits)

lemma wd_basic [wd]:
  "ps_log (with_derived d st) = set_derived d (ps_log st)"
  "ps_storage (with_derived d st) = ps_storage st"
  "(with_derived d st)\<lparr>ps_log := x\<rparr> = st\<lparr>ps_log := x\<rparr>"
  "(with_derived d st)\<lparr>ps_storage := y\<rparr> = with_derived d (st\<lparr>ps_storage := y\<rparr>)"
  "st\<lparr>ps_log := set_derived d lg\<rparr> = with_derived d (st\<lparr>ps_log := lg\<rparr>)"
  "\<lparr>ps_log = set_derived d lg, ps_storage = sto\<rparr> = with_derived d \<lparr>ps_log = lg, ps_storage = sto\<rparr>"
  by (simp_all add: with_derived_def)

lemma wd_append_partial [wd]:
  "append_partial (with_derived d st) = (fst (append_partial st), with_derived d (snd (append_partial st)))"
  by (simp add: append_partial_def with_derived_def set_derived_def split: option.splits prod.splits)

lemma wd_upd_partial [wd]: "upd_partial f (with_derived d st) = with_derived d (upd_partial f st)"
  by (simp add: upd_partial_def with_derived_def split: option.splits)

lemma maxStates_append_partial [simp]:
  "maxStates (ps_storage (snd (append_partial st))) = maxStates (ps_storage st)"
  by (simp add: append_partial_def split: option.splits prod.splits)

lemma maxStates_upd_partial [simp]:
  "maxStates (ps_storage (upd_partial f st)) = maxStates (ps_storage st)"
  by (simp add: upd_partial_def split: option.splits)

lemma maxStates_set_timeStep [simp]: "maxStates (set_timeStep x sto) = maxStates sto"
  by (simp add: set_timeStep_def split: option.splits)

lemma maxStates_set_side [simp]:
  "maxStates (ps_storage (set_side b t il arr st)) = maxStates (ps_storage st)"
  by (simp add: set_side_def)

lemma wd_updateFrequency [wd]:
  "updateFrequency U (set_derived d lg)
     = (fst (updateFrequency U lg), set_derived d (snd (updateFrequency U lg)))"
  by (simp add: updateFrequency_def getNumber_def wd split: sum.splits option.splits jsval.splits)

lemma framed_ULG_parseTeamLine: "framed ULG_parseTeamLine"
  by (rule framedI) (simp_all add: ULG_parseTeamLine_def wd Let_def split: sum.splits)

lemma framed_ULG_parsePlaymodeLine: "framed ULG_parsePlaymodeLine"
  by (rule framedI) (simp_all add: ULG_parsePlaymodeLine_def wd Let_def split: sum.splits)

lemma framed_ULG_parseServerParamLine: "framed (ULG_parseServerParamLine U)"
  by (rule framedI)
     (simp_all add: ULG_parseServerParamLine_def wd Let_def split: sum.splits prod.splits option.splits)

lemma framed_ULG_parsePlayerParamLine: "framed ULG_parsePlayerParamLine"
  by (rule framedI) (simp_all add: ULG_parsePlayerParamLine_def wd Let_def split: sum.splits)

lemma framed_ULG_parsePlayerTypeLine: "framed (ULG_parsePlayerTypeLine U)"
  by (rule framedI)
     (simp_all add: ULG_parsePlayerTypeLine_def wd Let_def split: sum.splits option.splits jsval.splits)

lemma wd_ULG_parseAgentState [wd]:
  "ULG_parseAgentState U c (set_derived d lg) t arr = ULG_parseAgentState U c lg t arr"
  by (simp add: ULG_parseAgentState_def wd cong: if_cong)

lemma wd_show_child_step [wd]:
  "show_child_step U (with_derived d st) c = with_derived d (show_child_step U st c)"
  by (simp add: show_child_step_def wd Let_def split: option.splits prod.splits)

lemma maxStates_show_child_step [simp]:
  "maxStates (ps_storage (show_child_step U st c)) = maxStates (ps_storage st)"
  by (simp add: show_child_step_def Let_def split: option.splits prod.splits)

lemma wd_show_children [wd]:
  "foldl (show_child_step U) (with_derived d st) cs = with_derived d (foldl (show_child_step U) st cs)"
  by (induction cs arbitrary: st) (simp_all add: wd)

lemma maxStates_show_children [simp]:
  "maxStates (ps_storage (foldl (show_child_step U) st cs)) = maxStates (ps_storage st)"
  by (induction cs arbitrary: st) simp_all

lemma framed_ULG_parseShowLine: "framed (ULG_parseShowLine U)"
  by (rule framedI) (simp_all add: ULG_parseShowLine_def wd Let_def split: sum.splits)

lemma framed_eq: "framed h \<Longrightarrow> h l (with_derived d st) = (fst (h l st), with_derived d (snd (h l st)))"
  unfolding framed_def by blast

lemma framed_fst: "framed h \<Longrightarrow> fst (h l (with_derived d st)) = fst (h l st)"
  by (simp add: framed_eq)

lemma framed_snd: "framed h \<Longrightarrow> snd (h l (with_derived d st)) = with_derived d (snd (h l st))"
  by (simp add: framed_eq)

lemma framed_maxStates: "framed h \<Longrightarrow> maxStates (ps_storage (snd (h l st))) = maxStates (ps_storage st)"
  by (simp add: framed_def)

lemmas framed_ULG =
  framed_ULG_parseTeamLine framed_ULG_parsePlaymodeLine framed_ULG_parseServerParamLine
  framed_ULG_parsePlayerParamLine framed_ULG_parsePlayerTypeLine framed_ULG_parseShowLine

lemma framed_ULG_line: "framed (ULG_line U)"
proof (rule framedI)
  fix l st d
  show "ULG_line U l (with_derived d st) = (fst (ULG_line U l st), with_derived d (snd (ULG_line U l st)))"
    by (simp add: ULG_line_def framed_ULG[THEN framed_eq] split: prod.splits)
  show "maxStates (ps_storage (snd (ULG_line U l st))) = maxStates (ps_storage st)"
  proof (cases "ULG_parseShowLine U l st")
    case (Pair e st2)
    with framed_maxStates[OF framed_ULG_parseShowLine, of U l st]
    have "maxStates (ps_storage st2) = maxStates (ps_storage st)" by simp
    then show ?thesis
      by (simp add: ULG_line_def Pair framed_ULG[THEN framed_maxStates])
  qed
qed

lemma framed_parseEnvironmentParams: "framed (parseEnvironmentParams U J)"
  by (rule framedI)
     (simp_all add: parseEnvironmentParams_def wd Let_def split: sum.splits prod.splits option.splits)

lemma framed_parsePlayerParams: "framed (parsePlayerParams J)"
  by (rule framedI) (simp_all add: parsePlayerParams_def wd split: option.splits)

lemma framed_parsePlayerTypeParams: "framed (parsePlayerTypeParams J)"
  by (rule framedI) (simp_all add: parsePlayerTypeParams_def wd Let_def split: option.splits)

lemma framed_Replay_parseTeamLine: "framed Replay_parseTeamLine"
  by (rule framedI) (simp_all add: Replay_parseTeamLine_def wd Let_def)

lemma framed_parseStateLine: "framed parseStateLine"
  by (rule framedI) (simp_all add: parseStateLine_def wd Let_def split: option.splits)

lemma wd_side [wd]:
  "side_team b (with_derived d st) = side_team b st"
  "side_indexList b (with_derived d st) = side_indexList b st"
  "set_side b t il arr (with_derived d st) = with_derived d (set_side b t il arr st)"
  by (simp_all add: side_team_def side_indexList_def set_side_def wd)

lemma framed_parseAgentState_V0_2D: "framed (\<lambda>l st. parseAgentState_V0_2D U l st b)"
  by (rule framedI) (simp_all add: parseAgentState_V0_2D_def wd Let_def split: option.splits)

lemma framed_parseAgentState_V0_3D: "framed (\<lambda>l st. parseAgentState_V0_3D l st b)"
  by (rule framedI) (simp_all add: parseAgentState_V0_3D_def wd Let_def split: option.splits)

lemma framed_parseAgentState_V1: "framed (\<lambda>l st. parseAgentState_V1 U l st b)"
  by (rule framedI) (simp_all add: parseAgentState_V1_def wd Let_def split: option.splits sum.splits)

lemma wd_select [wd]:
  "select_parseBallFcn (set_derived d lg) = select_parseBallFcn lg"
  "select_parseAgentFcn U (set_derived d lg) = select_parseAgentFcn U lg"
  by (simp_all add: select_parseBallFcn_def select_parseAgentFcn_def wd)

lemma framed_select_parseAgentFcn: "framed (\<lambda>l st. select_parseAgentFcn U lg l st b)"
  by (simp add: select_parseAgentFcn_def framed_parseAgentState_V0_2D framed_parseAgentState_V0_3D
        framed_parseAgentState_V1)

lemmas framed_Replay =
  framed_parseEnvironmentParams framed_parsePlayerParams framed_parsePlayerTypeParams
  framed_Replay_parseTeamLine

lemma framed_Replay_line:
  assumes "\<And>b. framed (\<lambda>l st. af l st b)"
  shows "framed (Replay_line U J bf af)"
proof (rule framedI)
  fix l st d
  show "Replay_line U J bf af l (with_derived d st)
          = (fst (Replay_line U J bf af l st), with_derived d (snd (Replay_line U J bf af l st)))"
    using framed_eq[OF framed_parseStateLine, of l d st]
    by (simp add: Replay_line_def Let_def framed_Replay[THEN framed_eq] framed_eq[OF assms] wd)
  show "maxStates (ps_storage (snd (Replay_line U J bf af l st))) = maxStates (ps_storage st)"
    using framed_maxStates[OF framed_parseStateLine, of l st]
    by (simp add: Replay_line_def Let_def framed_Replay[THEN framed_maxStates] framed_maxStates[OF assms])
qed

lemma framed_Replay_line_selected:
  "framed (Replay_line U J (select_parseBallFcn lg) (select_parseAgentFcn U lg))"
  by (rule framed_Replay_line) (rule framed_select_parseAgentFcn)

section \<open>One pass over the body\<close>

lemma maxStates_run_lines:
  "framed h \<Longrightarrow> maxStates (ps_storage (run_lines h st ls)) = maxStates (ps_storage st)"
  by (induction ls arbitrary: st) (simp_all add: run_lines_def framed_maxStates)

lemma maxStates_pass_state [simp]:
  "maxStates (ps_storage (pass_state st c f)) = maxStates (ps_storage st)"
  by (simp add: pass_state_def Let_def)

lemma body_loop_count:
  assumes "framed h" and "cnt \<le> maxStates (ps_storage st)"
    and "body_loop h line it st cnt dcd = (line', it', st', cnt', dcd')"
  shows "cnt' \<le> maxStates (ps_storage st)"
  using assms
proof (induction h line it st cnt dcd rule: body_loop.induct)
  case (1 h line it st cnt decoded)
  show ?case
  proof (cases line)
    case None
    with "1.prems" show ?thesis by (simp add: body_loop.simps[of h None])
  next
    case (Some l)
    show ?thesis
    proof (cases "cnt < maxStates (ps_storage st)")
      case False
      with Some "1.prems" show ?thesis by (auto simp: body_loop.simps[of h "Some l"])
    next
      case True
      obtain counts st1 where h: "h l st = (counts, st1)" by (cases "h l st")
      obtain line1 it1 where nx: "it_next it = (line1, it1)" by (cases "it_next it")
      have run: "body_loop h line1 it1 st1 (if counts then cnt + 1 else cnt) (decoded @ [(l, counts)])
                  = (line', it', st', cnt', dcd')"
        using "1.prems"(3) Some True h nx by (simp add: body_loop.simps[of h "Some l"])
      have m: "maxStates (ps_storage st1) = maxStates (ps_storage st)"
        using framed_maxStates[OF "1.prems"(1), of l st] h by simp
      have c: "(if counts then cnt + 1 else cnt) \<le> maxStates (ps_storage st1)"
        using True m by simp
      from "1.IH"[OF Some True h[symmetric] nx[symmetric] "1.prems"(1) c run] m
      show ?thesis by simp
    qed
  qed
qed

lemma body_loop_flags:
  assumes "body_loop h line it st cnt dcd = (line', it', st', cnt', dcd')"
  shows "\<exists>ds. dcd' = dcd @ ds \<and> (\<forall>x\<in>set ds. \<exists>s. snd x = fst (h (fst x) s))"
  using assms
proof (induction h line it st cnt dcd rule: body_loop.induct)
  case (1 h line it st cnt decoded)
  show ?case
  proof (cases line)
    case None
    with "1.prems" show ?thesis by (simp add: body_loop.simps[of h None])
  next
    case (Some l)
    show ?thesis
    proof (cases "cnt < maxStates (ps_storage st)")
      case False
      with Some "1.prems" show ?thesis by (auto simp: body_loop.simps[of h "Some l"])
    next
      case True
      obtain counts st1 where h: "h l st = (counts, st1)" by (cases "h l st")
      obtain line1 it1 where nx: "it_next it = (line1, it1)" by (cases "it_next it")
      have run: "body_loop h line1 it1 st1 (if counts then cnt + 1 else cnt) (decoded @ [(l, counts)])
                  = (line', it', st', cnt', dcd')"
        using "1.prems"(1) Some True h nx by (simp add: body_loop.simps[of h "Some l"])
      from "1.IH"[OF Some True h[symmetric] nx[symmetric] run]
      obtain ds where ds: "dcd' = (decoded @ [(l, counts)]) @ ds"
          "\<forall>x\<in>set ds. \<exists>s. snd x = fst (h (fst x) s)" by blast
      have "\<exists>s. counts = fst (h l s)" using h by (metis fst_conv)
      then have "dcd' = decoded @ ((l, counts) # ds)
            \<and> (\<forall>x\<in>set ((l, counts) # ds). \<exists>s. snd x = fst (h (fst x) s))"
        using ds by simp
      then show ?thesis by blast
    qed
  qed
qed

lemma parse_body_lines:
  assumes wf: "it_wf it" and fr: "framed h" and pb: "parse_body h it st = (it', st', sched, dcd)"
  shows "\<exists>it2. it_wf it2 \<and> it_data it2 = it_data it \<and> it_partialData it2 = it_partialData it
     \<and> todo it = map fst dcd @ todo it2
     \<and> (sched \<longleftrightarrow> it_line it2 \<noteq> None) \<and> (it_line it2 = None \<longrightarrow> lines_of it2 = [])
     \<and> (it_partialData it \<longrightarrow> snd (avail (it_rest it2)) = snd (avail (it_rest it)))
     \<and> it' = (if \<not> sched \<and> \<not> it_partialData it then it_dispose it2 else it2)
     \<and> st' = pass_state (run_lines h st (map fst dcd)) (filter snd dcd \<noteq> [])
               (\<not> sched \<and> \<not> it_partialData it)
     \<and> length (filter snd dcd) \<le> maxStates (ps_storage st)
     \<and> (sched \<longrightarrow> length (filter snd dcd) = maxStates (ps_storage st))
     \<and> (\<forall>x\<in>set dcd. \<exists>s. snd x = fst (h (fst x) s))"
proof -
  obtain line1 it1 where s: "(if it_line it = None then it_next it else (it_line it, it)) = (line1, it1)"
    by (cases "if it_line it = None then it_next it else (it_line it, it)")
  have a: "it_wf it1 \<and> line1 = it_line it1 \<and> (line1 = None \<longrightarrow> lines_of it1 = [])
           \<and> it_data it1 = it_data it \<and> it_partialData it1 = it_partialData it
           \<and> todo it1 = todo it
           \<and> (it_partialData it \<longrightarrow> snd (avail (it_rest it1)) = snd (avail (it_rest it)))"
  proof (cases "it_line it")
    case None
    with s have nx: "it_next it = (line1, it1)" by simp
    from it_next_lines[OF wf nx] None show ?thesis
      by (cases line1) (auto simp: todo_def lines_of_def)
  next
    case (Some l)
    with s wf show ?thesis by auto
  qed
  obtain line2 it2 st2 cnt2 dcd2 where bl: "body_loop h line1 it1 st 0 [] = (line2, it2, st2, cnt2, dcd2)"
    by (cases "body_loop h line1 it1 st 0 []") auto
  from a have a1: "it_wf it1" and a2: "line1 = it_line it1" and a3: "line1 = None \<longrightarrow> lines_of it1 = []"
    by simp_all
  note bll = body_loop_lines[OF a1 a2 a3 bl]
  then obtain ds where ds: "dcd2 = ds" "todo it1 = map fst ds @ todo it2"
     "st2 = run_lines h st (map fst ds)" "cnt2 = length (filter snd ds)" by auto
  have cb: "cnt2 \<le> maxStates (ps_storage st)" using body_loop_count[OF fr _ bl] by simp
  have m2: "maxStates (ps_storage st2) = maxStates (ps_storage st)"
    by (simp add: ds(3) maxStates_run_lines[OF fr])
  from body_loop_flags[OF bl] have fl: "\<forall>x\<in>set dcd2. \<exists>s. snd x = fst (h (fst x) s)" by simp
  have res: "sched = (line2 \<noteq> None) \<and> dcd = dcd2
     \<and> it' = (if \<not> sched \<and> \<not> it_partialData it2 then it_dispose it2 else it2)
     \<and> st' = pass_state st2 (cnt2 > 0) (\<not> sched \<and> \<not> it_partialData it2)"
    using pb s bl by (auto simp: parse_body_def pass_state_def Let_def split: if_splits)
  have c0: "(cnt2 > 0) = (filter snd dcd \<noteq> [])" using ds res by simp
  have "it_wf it2 \<and> it_data it2 = it_data it \<and> it_partialData it2 = it_partialData it
     \<and> todo it = map fst dcd @ todo it2
     \<and> (sched \<longleftrightarrow> it_line it2 \<noteq> None) \<and> (it_line it2 = None \<longrightarrow> lines_of it2 = [])
     \<and> (it_partialData it \<longrightarrow> snd (avail (it_rest it2)) = snd (avail (it_rest it)))
     \<and> it' = (if \<not> sched \<and> \<not> it_partialData it then it_dispose it2 else it2)
     \<and> st' = pass_state (run_lines h st (map fst dcd)) (filter snd dcd \<noteq> [])
               (\<not> sched \<and> \<not> it_partialData it)
     \<and> length (filter snd dcd) \<le> maxStates (ps_storage st)
     \<and> (sched \<longrightarrow> length (filter snd dcd) = maxStates (ps_storage st))
     \<and> (\<forall>x\<in>set dcd. \<exists>s. snd x = fst (h (fst x) s))"
    using bll a res ds cb m2 fl c0 by auto
  then show ?thesis by (rule exI)
qed

lemma it_wf_new_DataIterator [simp]: "it_wf (new_DataIterator d p)"
  by (simp add: it_wf_def new_DataIterator_def)

lemma it_wf_it_next: "it_wf it \<Longrightarrow> it_wf (snd (it_next it))"
  using it_next_lines[of it "fst (it_next it)" "snd (it_next it)"] by simp

lemma it_wf_it_next': "it_next it = (x, it') \<Longrightarrow> it_wf it \<Longrightarrow> it_wf it'"
  using it_wf_it_next[of it] by simp

lemma parse_body_linesE:
  assumes "it_wf it" and "framed h" and "parse_body h it st = (it', st', sched, dcd)"
  obtains it2 where "it_wf it2" and "it_data it2 = it_data it"
    and "it_partialData it2 = it_partialData it"
    and "todo it = map fst dcd @ todo it2"
    and "sched \<longleftrightarrow> it_line it2 \<noteq> None" and "it_line it2 = None \<longrightarrow> lines_of it2 = []"
    and "it_partialData it \<longrightarrow> snd (avail (it_rest it2)) = snd (avail (it_rest it))"
    and "it' = (if \<not> sched \<and> \<not> it_partialData it then it_dispose it2 else it2)"
    and "st' = pass_state (run_lines h st (map fst dcd)) (filter snd dcd \<noteq> [])
               (\<not> sched \<and> \<not> it_partialData it)"
    and "length (filter snd dcd) \<le> maxStates (ps_storage st)"
    and "sched \<longrightarrow> length (filter snd dcd) = maxStates (ps_storage st)"
    and "\<forall>x\<in>set dcd. \<exists>s. snd x = fst (h (fst x) s)"
  using parse_body_lines[OF assms] by (elim exE conjE) (rule that; assumption)

lemma maxStates_parse_body:
  assumes "it_wf it" and "framed h"
  shows "maxStates (ps_storage (fst (snd (parse_body h it st)))) = maxStates (ps_storage st)"
proof -
  obtain it' st' sched dcd where pb: "parse_body h it st = (it', st', sched, dcd)"
    by (cases "parse_body h it st") auto
  from assms pb show ?thesis
    by (rule parse_body_linesE) (simp add: pb maxStates_run_lines[OF assms(2)])
qed

lemma parse_body_uncounted:
  assumes wf: "it_wf it" and fr: "framed h"
    and un: "\<forall>l\<in>set (todo it). \<forall>s. \<not> fst (h l s)" and pos: "0 < maxStates (ps_storage st)"
    and pb: "parse_body h it st = (it', st', sched, dcd)"
  shows "\<not> sched \<and> map fst dcd = todo it \<and> filter snd dcd = []"
proof -
  from wf fr pb obtain it2 where
    t: "todo it = map fst dcd @ todo it2" and s: "sched \<longleftrightarrow> it_line it2 \<noteq> None"
    and e: "it_line it2 = None \<longrightarrow> lines_of it2 = []"
    and f: "sched \<longrightarrow> length (filter snd dcd) = maxStates (ps_storage st)"
    and fl: "\<forall>x\<in>set dcd. \<exists>s. snd x = fst (h (fst x) s)"
    by (rule parse_body_linesE)
  have "\<forall>x\<in>set dcd. \<not> snd x"
  proof
    fix x assume x: "x \<in> set dcd"
    then have "fst x \<in> set (todo it)" using t by auto
    with un fl x show "\<not> snd x" by blast
  qed
  then have n: "filter snd dcd = []" by (simp add: filter_empty_conv)
  with f pos have ns: "\<not> sched" by auto
  with s e have "todo it2 = []" by (simp add: todo_def)
  with t n ns show ?thesis by simp
qed

lemma scan_skip_eol: "is_eol c \<Longrightarrow> scan (c # r) = scan r"
  by (simp add: scan_def)

lemma all_lines_skip_eol: "is_eol c \<Longrightarrow> all_lines (c # r) = all_lines r"
  by (subst all_lines.simps, subst (2) all_lines.simps) (simp add: scan_skip_eol)

lemma all_lines_Nil [simp]: "all_lines [] = []"
  by (subst all_lines.simps) (simp add: scan_def)

lemma all_lines_first:
  assumes "l \<noteq> []" and "\<forall>c\<in>set l. \<not> is_eol c"
  shows "all_lines (l @ CHR 0x0A # r) = l # all_lines r"
proof -
  have "scan ([] @ l @ CHR 0x0A # r) = Some (l, CHR 0x0A # r)"
    by (rule scan_of_parts) (use assms in \<open>simp_all add: is_eol_def\<close>)
  then show ?thesis
    by (subst all_lines.simps) (simp add: all_lines_skip_eol is_eol_def)
qed

lemma all_lines_replicate:
  assumes "l \<noteq> []" and "\<forall>c\<in>set l. \<not> is_eol c"
  shows "all_lines (concat (replicate n (l @ [CHR 0x0A]))) = replicate n l"
  by (induction n) (simp_all add: all_lines_first[OF assms])

section \<open>The limit of a pass\<close>

lemma pass_limit_after_body:
  "pass_limit (after_body P r) = Some (maxStates (ps_storage (fst (snd r))))"
  by (cases r) (simp add: pass_limit_def after_body_def)

lemma snd_parse_result [simp]: "snd (parse_result msg p w P) = P"
  by (simp add: parse_result_def Let_def)

lemma parse_result_P: "parse_result msg p w X = (r, P) \<Longrightarrow> P = X"
  using snd_parse_result[of msg p w X] by simp

lemma ULG_parse_limit:
  assumes "ULG_parse U new_parser d partial incr = (Inr b, P)"
  shows "pass_limit P = Some 100"
proof -
  obtain line1 it1 where nx: "it_next (new_DataIterator d partial) = (line1, it1)"
    by (cases "it_next (new_DataIterator d partial)")
  define st where "st = \<lparr>ps_log = new_SServerLog U (parseInt_str 10 (slice1 (the line1) 3)),
      ps_storage = new_LogParserStorage
        \<lparr>partialState := Some (new_PartialWorldState (Fin 0) (Fin (1 / 10)) (Fin 0)),
         maxStates := 100\<rparr>\<rparr>"
  have "snd (ULG_parse U new_parser d partial incr)
          = after_body new_parser (parseULGBody U (snd (it_next it1)) st)"
    using assms
    by (auto simp: ULG_parse_def new_parser_def nx Let_def st_def split: if_splits dest: parse_result_P)
  then have P: "P = after_body new_parser (parseULGBody U (snd (it_next it1)) st)"
    using assms by simp
  have wf: "it_wf (snd (it_next it1))"
    using it_wf_it_next'[OF nx] by (simp add: it_wf_it_next)
  show ?thesis
    using maxStates_parse_body[OF wf framed_ULG_line, where st = st and U1 = U]
    by (simp add: P pass_limit_after_body parseULGBody_def st_def)
qed

lemma Replay_header_wf:
  assumes "it_wf it0" and "Replay_header U it0 = Inr (it1, replay)"
  shows "it_wf it1"
proof -
  have n: "\<And>it x it'. it_wf it \<Longrightarrow> it_next it = (x, it') \<Longrightarrow> it_wf (snd (it_next it'))"
    by (simp add: it_wf_it_next' it_wf_it_next)
  have n2: "\<And>it x it' y it''. it_wf it \<Longrightarrow> it_next it = (x, it') \<Longrightarrow> it_next it' = (y, it'')
            \<Longrightarrow> it_wf it''"
    by (meson it_wf_it_next')
  show ?thesis
    using assms(2) n[OF assms(1)] n2[OF assms(1)]
    by (auto simp: Replay_header_def Let_def it_wf_it_next' it_wf_it_next
             split: prod.splits option.splits if_splits)
qed

lemma Replay_parse_limit:
  assumes "Replay_header U (new_DataIterator d partial) = Inr (it1, replay)"
  shows "pass_limit (snd (Replay_parse U J new_parser d partial incr))
           = Some (if log_type replay = TWOD then 300 else 50)"
proof -
  have wf: "it_wf it1" using Replay_header_wf[OF _ assms] by simp
  define st where "st = \<lparr>ps_log = replay,
      ps_storage = new_LogParserStorage\<lparr>maxStates := (if log_type replay = TWOD then 300 else 50)\<rparr>\<rparr>"
  have "snd (Replay_parse U J new_parser d partial incr)
          = after_body new_parser (parseReplayBody U J it1 st)"
    using assms by (simp add: Replay_parse_def new_parser_def st_def)
  then show ?thesis
    using maxStates_parse_body[OF wf framed_Replay_line_selected,
          where st = st and U1 = U and J1 = J and lg1 = replay]
    by (simp add: pass_limit_after_body parseReplayBody_def st_def)
qed

lemma example_ULG_parse_returns:
  "fst (ULG_parse example_util new_parser
          (''ULG5'' @ [CHR 0x0A] @ ''(show 1 ((l 1) 0 0x1 1 2 0 0 0))'' @ [CHR 0x0A]) False False) = Inr True"
  by (simp add: run_defs)

lemma example_Replay_header:
  "\<exists>it1. Replay_header example_util (new_DataIterator (''RPL 3D 0'' @ [CHR 0x0A]) True)
           = Inr (it1, new_Replay example_util THREED (Fin 0))"
  by (simp add: run_defs split_sp.simps)

lemma example_state_limit: "maxStates (ps_storage example_state) = 100"
  by (simp add: example_state_def new_LogParserStorage_def)

section \<open>Which lines a pass counts\<close>

lemma run_flags_append:
  "run_flags h st (xs @ ys) = run_flags h st xs @ run_flags h (run_lines h st xs) ys"
  by (induction xs arbitrary: st) (simp_all add: run_lines_def)

lemma map_fst_run_flags [simp]: "map fst (run_flags h st ls) = ls"
  by (induction ls arbitrary: st) simp_all

lemma body_loop_run_flags:
  assumes "body_loop h line it st cnt dcd = (line', it', st', cnt', dcd')"
  shows "\<exists>ls. dcd' = dcd @ run_flags h st ls"
  using assms
proof (induction h line it st cnt dcd rule: body_loop.induct)
  case (1 h line it st cnt decoded)
  show ?case
  proof (cases line)
    case None
    with "1.prems" have "dcd' = decoded @ run_flags h st []"
      by (simp add: body_loop.simps[of h None])
    then show ?thesis by (rule exI)
  next
    case (Some l)
    show ?thesis
    proof (cases "cnt < maxStates (ps_storage st)")
      case False
      with Some "1.prems" have "dcd' = decoded @ run_flags h st []"
        by (simp add: body_loop.simps[of h "Some l"])
      then show ?thesis by (rule exI)
    next
      case True
      obtain counts st1 where h: "h l st = (counts, st1)" by (cases "h l st")
      obtain line1 it1 where nx: "it_next it = (line1, it1)" by (cases "it_next it")
      have run: "body_loop h line1 it1 st1 (if counts then cnt + 1 else cnt) (decoded @ [(l, counts)])
                  = (line', it', st', cnt', dcd')"
        using "1.prems"(1) Some True h nx by (simp add: body_loop.simps[of h "Some l"])
      from "1.IH"[OF Some True h[symmetric] nx[symmetric] run]
      obtain ls where ls: "dcd' = (decoded @ [(l, counts)]) @ run_flags h st1 ls" by blast
      have "dcd' = decoded @ run_flags h st (l # ls)"
        using ls h by simp
      then show ?thesis by (rule exI)
    qed
  qed
qed

lemma parse_body_run_flags:
  assumes "parse_body h it st = (it', st', sched, dcd)"
  shows "dcd = run_flags h st (map fst dcd)"
proof -
  obtain line1 it1 where s: "(if it_line it = None then it_next it else (it_line it, it)) = (line1, it1)"
    by (cases "if it_line it = None then it_next it else (it_line it, it)")
  obtain line2 it2 st2 cnt2 dcd2 where bl: "body_loop h line1 it1 st 0 [] = (line2, it2, st2, cnt2, dcd2)"
    by (cases "body_loop h line1 it1 st 0 []") auto
  have d: "dcd = dcd2"
    using assms s bl by (auto simp: parse_body_def Let_def split: if_splits)
  from body_loop_run_flags[OF bl] obtain ls where "dcd2 = run_flags h st ls" by auto
  then show ?thesis by (simp add: d)
qed

lemma pass_limited_parse_body:
  assumes wf: "it_wf it" and fr: "framed h"
  shows "pass_limited h (maxStates (ps_storage st)) it st (parse_body h it st)"
proof -
  obtain it' st' sched dcd where pb: "parse_body h it st = (it', st', sched, dcd)"
    by (cases "parse_body h it st") auto
  from wf fr pb obtain it2 where
    t: "todo it = map fst dcd @ todo it2" and s: "sched \<longleftrightarrow> it_line it2 \<noteq> None"
    and e: "it_line it2 = None \<longrightarrow> lines_of it2 = []"
    and c: "length (filter snd dcd) \<le> maxStates (ps_storage st)"
    and f: "sched \<longrightarrow> length (filter snd dcd) = maxStates (ps_storage st)"
    by (rule parse_body_linesE)
  have ne: "sched \<longleftrightarrow> todo it2 \<noteq> []" using s e by (auto simp: todo_def)
  have l: "length (todo it) = length dcd + length (todo it2)" using t by simp
  have tk: "take (length dcd) (todo it) = map fst dcd" using t by simp
  have m: "maxStates (ps_storage st') = maxStates (ps_storage st)"
    using maxStates_parse_body[OF wf fr, of st] pb by simp
  note rf = parse_body_run_flags[OF pb]
  show ?thesis
    unfolding pass_limited_def pb using c f ne l tk m rf by simp
qed

lemma take_shorter: "take n l = p \<Longrightarrow> m \<le> n \<Longrightarrow> take m l = take m p"
proof -
  assume a: "take n l = p" and b: "m \<le> n"
  have "take m (take n l) = take m l" using b by (simp add: min_def)
  with a show ?thesis by simp
qed

lemma ULG_line_counts:
  "fst (ULG_line U l s) \<longleftrightarrow> take 6 l = ''(show '' \<and> fst (ULG_parseShowLine U l s) = None"
proof (cases "take 6 l = ''(show ''")
  case True
  have a1: "take 14 l \<noteq> ''(server_param ''"
  proof
    assume h: "take 14 l = ''(server_param ''"
    from take_shorter[OF h, of 6] True show False by simp
  qed
  have a2: "take 14 l \<noteq> ''(player_param ''"
  proof
    assume h: "take 14 l = ''(player_param ''"
    from take_shorter[OF h, of 6] True show False by simp
  qed
  have a3: "take 13 l \<noteq> ''(player_type ''"
  proof
    assume h: "take 13 l = ''(player_type ''"
    from take_shorter[OF h, of 6] True show False by simp
  qed
  have a4: "take 10 l \<noteq> ''(playmode ''"
  proof
    assume h: "take 10 l = ''(playmode ''"
    from take_shorter[OF h, of 6] True show False by simp
  qed
  have b: "take 6 l \<noteq> ''(team ''" "take 6 l \<noteq> ''(draw ''" using True by simp_all
  have c: "take 5 l \<noteq> ''(msg ''"
  proof
    assume h: "take 5 l = ''(msg ''"
    from take_shorter[OF True, of 5] h show False by simp
  qed
  obtain e s' where r: "ULG_parseShowLine U l s = (e, s')" by (cases "ULG_parseShowLine U l s")
  show ?thesis
    by (simp add: ULG_line_def True a1 a2 a3 a4 b c r)
next
  case False
  then show ?thesis by (simp add: ULG_line_def)
qed

lemma append_partial_counts:
  "fst (append_partial s)
     \<longleftrightarrow> length (states (ps_log (snd (append_partial s)))) = Suc (length (states (ps_log s)))"
  by (simp add: append_partial_def appendTo_def split: option.splits)

lemma states_upd_partial [simp]: "states (ps_log (upd_partial f st)) = states (ps_log st)"
  by (simp add: upd_partial_def split: option.splits)

lemma parseStateLine_counts:
  "fst (parseStateLine l s)
     \<longleftrightarrow> length (states (ps_log (snd (parseStateLine l s)))) = Suc (length (states (ps_log s)))"
  using append_partial_counts[of s]
  by (simp add: parseStateLine_def Let_def split: option.splits)

lemma Replay_line_counts:
  "fst (Replay_line U J bf af l s) \<longleftrightarrow> charAt l 0 = ''S'' \<and> fst (parseStateLine l s)"
  by (simp add: Replay_line_def Let_def)

text \<open>
  Claim C4, as the code has it. A pass of either decoder decodes a prefix of the lines that
  are waiting, one after the other, and counts a decoded line as a new state exactly when
  the line decoder says so at that moment: in a ULG log for a show line decoded without an
  exception, in a replay for a state line that commits a world state. It counts at most
  \<^verbatim>\<open>maxStates\<close> lines; lines that are not counted are not limited. The pass schedules a
  continuation exactly when lines are left, and it has then counted exactly \<^verbatim>\<open>maxStates\<close>
  new states. The first call of \<^verbatim>\<open>parse\<close> sets \<^verbatim>\<open>maxStates\<close> to 100 in the ULG decoder, and
  to 300 for a 2D replay and 50 for a 3D replay in the Replay decoder; no pass changes it.
\<close>

theorem C4_counted_states_per_pass:
  assumes "it_wf it"
  shows "pass_limited (ULG_line U) (maxStates (ps_storage st)) it st (parseULGBody U it st)
       \<and> pass_limited
            (Replay_line U J (select_parseBallFcn (ps_log st)) (select_parseAgentFcn U (ps_log st)))
            (maxStates (ps_storage st)) it st (parseReplayBody U J it st)
       \<and> (fst (ULG_line U l s) \<longleftrightarrow> take 6 l = ''(show '' \<and> fst (ULG_parseShowLine U l s) = None)
       \<and> (fst (Replay_line U J bf af l s) \<longleftrightarrow>
            charAt l 0 = ''S''
            \<and> length (states (ps_log (snd (parseStateLine l s)))) = Suc (length (states (ps_log s))))
       \<and> (ULG_parse U new_parser d partial incr = (Inr b, P) \<longrightarrow> pass_limit P = Some 100)
       \<and> (Replay_header U (new_DataIterator d partial) = Inr (it1, replay) \<longrightarrow>
            pass_limit (snd (Replay_parse U J new_parser d partial incr))
              = Some (if log_type replay = TWOD then 300 else 50))"
  using pass_limited_parse_body[OF assms framed_ULG_line, where st = st and U1 = U]
        pass_limited_parse_body[OF assms framed_Replay_line_selected,
          where st = st and U1 = U and J1 = J and lg1 = "ps_log st"]
        ULG_parse_limit[of U d partial incr b P]
        Replay_parse_limit[of U d partial it1 replay J incr]
        ULG_line_counts[of U l s] Replay_line_counts[of U J bf af l s] parseStateLine_counts[of l s]
  by (simp add: parseULGBody_def parseReplayBody_def)

lemma ULG_show1:
  assumes "partialState (ps_storage st) \<noteq> None"
  shows "fst (ULG_line U ''(show 1)'' st)"
    and "partialState (ps_storage (snd (ULG_line U ''(show 1)'' st))) \<noteq> None"
proof -
  have t: "SymbolTreeParser_parse ''(show 1)'' = Inr (SymbolNode [''show'', ''1''] [])"
    by (simp add: run_defs)
  have k: "partialState (ps_storage (upd_partial f (snd (append_partial st)))) \<noteq> None" for f
    using assms by (auto simp: upd_partial_def append_partial_def split: option.splits prod.splits)
  show "fst (ULG_line U ''(show 1)'' st)"
    using assms by (simp add: ULG_line_def ULG_parseShowLine_def t Let_def)
  show "partialState (ps_storage (snd (ULG_line U ''(show 1)'' st))) \<noteq> None"
    using assms k by (simp add: ULG_line_def ULG_parseShowLine_def t Let_def)
qed

lemma run_flags_show1:
  "partialState (ps_storage st) \<noteq> None \<Longrightarrow>
     run_flags (ULG_line U) st (replicate n ''(show 1)'') = replicate n (''(show 1)'', True)"
proof (induction n arbitrary: st)
  case 0
  then show ?case by simp
next
  case (Suc n)
  from ULG_show1[OF Suc.prems, of U] Suc.IH[of "snd (ULG_line U ''(show 1)'' st)"]
  show ?case by simp
qed

lemma example_state_partial: "partialState (ps_storage example_state) \<noteq> None"
  by (simp add: example_state_def new_LogParserStorage_def)

lemma example_replay_pass:
  "snd (snd (parseReplayBody example_util no_json
      (new_DataIterator (''l 5 1000 2000 500 1000 0 0 0'' @ [CHR 0x0A] @ ''S 1 PlayOn 0 0'' @ [CHR 0x0A]
          @ ''S 2 PlayOn 0 0'' @ [CHR 0x0A]) False)
      (example_replay_state\<lparr>ps_storage := (ps_storage example_replay_state)\<lparr>maxStates := 1\<rparr>\<rparr>)))
   = (True, [(''l 5 1000 2000 500 1000 0 0 0'', False), (''S 1 PlayOn 0 0'', True)])"
  by (simp add: run_defs)

theorem C4_counted_states_per_pass_witness:
  "it_wf (new_DataIterator (concat (replicate 101 (''(show 1)'' @ [CHR 0x0A]))) False)
   \<and> pass_limited (ULG_line example_util) 100
       (new_DataIterator (concat (replicate 101 (''(show 1)'' @ [CHR 0x0A]))) False) example_state
       (parseULGBody example_util
          (new_DataIterator (concat (replicate 101 (''(show 1)'' @ [CHR 0x0A]))) False) example_state)
   \<and> snd (snd (parseULGBody example_util
          (new_DataIterator (concat (replicate 101 (''(show 1)'' @ [CHR 0x0A]))) False) example_state))
       = (True, replicate 100 (''(show 1)'', True))
   \<and> fst (ULG_line example_util ''(show 1)'' example_state)
   \<and> pass_limited
       (Replay_line example_util no_json (select_parseBallFcn (ps_log example_replay_state))
          (select_parseAgentFcn example_util (ps_log example_replay_state))) 1
       (new_DataIterator (''l 5 1000 2000 500 1000 0 0 0'' @ [CHR 0x0A] @ ''S 1 PlayOn 0 0'' @ [CHR 0x0A]
          @ ''S 2 PlayOn 0 0'' @ [CHR 0x0A]) False)
       (example_replay_state\<lparr>ps_storage := (ps_storage example_replay_state)\<lparr>maxStates := 1\<rparr>\<rparr>)
       (parseReplayBody example_util no_json
          (new_DataIterator (''l 5 1000 2000 500 1000 0 0 0'' @ [CHR 0x0A] @ ''S 1 PlayOn 0 0'' @ [CHR 0x0A]
             @ ''S 2 PlayOn 0 0'' @ [CHR 0x0A]) False)
          (example_replay_state\<lparr>ps_storage := (ps_storage example_replay_state)\<lparr>maxStates := 1\<rparr>\<rparr>))
   \<and> snd (snd (parseReplayBody example_util no_json
          (new_DataIterator (''l 5 1000 2000 500 1000 0 0 0'' @ [CHR 0x0A] @ ''S 1 PlayOn 0 0'' @ [CHR 0x0A]
             @ ''S 2 PlayOn 0 0'' @ [CHR 0x0A]) False)
          (example_replay_state\<lparr>ps_storage := (ps_storage example_replay_state)\<lparr>maxStates := 1\<rparr>\<rparr>)))
       = (True, [(''l 5 1000 2000 500 1000 0 0 0'', False), (''S 1 PlayOn 0 0'', True)])
   \<and> pass_limit (snd (ULG_parse example_util new_parser
        (''ULG5'' @ [CHR 0x0A] @ ''(show 1 ((l 1) 0 0x1 1 2 0 0 0))'' @ [CHR 0x0A]) False False))
       = Some 100
   \<and> pass_limit (snd (Replay_parse example_util no_json new_parser (''RPL 3D 0'' @ [CHR 0x0A]) True False))
       = Some 50"
proof -
  let ?it = "new_DataIterator (concat (replicate 101 (''(show 1)'' @ [CHR 0x0A]))) False"
  let ?d = "''ULG5'' @ [CHR 0x0A] @ ''(show 1 ((l 1) 0 0x1 1 2 0 0 0))'' @ [CHR 0x0A]"
  let ?r = "''RPL 3D 0'' @ [CHR 0x0A]"
  obtain it1 where hd: "Replay_header example_util (new_DataIterator ?r True)
      = Inr (it1, new_Replay example_util THREED (Fin 0))"
    using example_Replay_header by blast
  have wf: "it_wf ?it" by simp
  have u: "ULG_parse example_util new_parser ?d False False
            = (Inr True, snd (ULG_parse example_util new_parser ?d False False))"
    using example_ULG_parse_returns by (simp add: prod_eq_iff)
  have ty: "log_type (new_Replay example_util THREED (Fin 0)) = THREED"
    by (simp add: new_Replay_def new_SimulationLog_def updateFrequency_def Let_def
          split: sum.splits option.splits)
  note c1 = C4_counted_states_per_pass[OF wf, of example_util example_state no_json
            "''(show 1)''" example_state "select_parseBallFcn (ps_log example_state)"
            "select_parseAgentFcn example_util (ps_log example_state)" ?d False False True
            "snd (ULG_parse example_util new_parser ?d False False)"]
  note c2 = C4_counted_states_per_pass[OF wf, of example_util example_state no_json
            "''(show 1)''" example_state "select_parseBallFcn (ps_log example_state)"
            "select_parseAgentFcn example_util (ps_log example_state)" ?r True False True
            "snd (ULG_parse example_util new_parser ?r True False)" it1
            "new_Replay example_util THREED (Fin 0)"]
  from c1 have pl: "pass_limited (ULG_line example_util) 100 ?it example_state
      (parseULGBody example_util ?it example_state)"
    by (simp only: example_state_limit)
  obtain it' st' sched dcd where pb: "parseULGBody example_util ?it example_state = (it', st', sched, dcd)"
    by (cases "parseULGBody example_util ?it example_state") auto
  have al: "all_lines (concat (replicate 101 (''(show 1)'' @ [CHR 0x0A]))) = replicate 101 ''(show 1)''"
    by (rule all_lines_replicate) (simp_all add: is_eol_def)
  have t: "todo ?it = replicate 101 ''(show 1)''"
    using al by (simp add: todo_def lines_of_def it_rest_def new_DataIterator_def)
  from pl have a: "take (length dcd) (todo ?it) = map fst dcd"
    and b: "dcd = run_flags (ULG_line example_util) example_state (map fst dcd)"
    and c: "length (filter snd dcd) \<le> 100"
    and d: "sched = (length dcd < length (todo ?it))"
    unfolding pass_limited_def pb by simp_all
  have m: "map fst dcd = replicate (min (length dcd) 101) ''(show 1)''"
    using a unfolding t by simp
  have dcd: "dcd = replicate (min (length dcd) 101) (''(show 1)'', True)"
    using b unfolding m by (simp only: run_flags_show1[OF example_state_partial])
  have "filter snd dcd = dcd" by (subst (2) dcd, subst dcd) simp
  with c have len: "length dcd \<le> 100" by simp
  with d t have s: "sched" by simp
  from pl s have "length (filter snd dcd) = 100"
    unfolding pass_limited_def pb by simp
  with \<open>filter snd dcd = dcd\<close> have "length dcd = 100" by simp
  with dcd have "dcd = replicate 100 (''(show 1)'', True)" by simp
  with s pb have res: "snd (snd (parseULGBody example_util ?it example_state))
      = (True, replicate 100 (''(show 1)'', True))"
    by simp
  from c1 have f: "fst (ULG_line example_util ''(show 1)'' example_state)"
    using ULG_show1(1)[OF example_state_partial, of example_util] by simp
  from c1 u have l1: "pass_limit (snd (ULG_parse example_util new_parser ?d False False)) = Some 100"
    by simp
  from c2 hd ty have l2: "pass_limit (snd (Replay_parse example_util no_json new_parser ?r True False))
      = Some 50"
    by simp
  let ?itR = "new_DataIterator (''l 5 1000 2000 500 1000 0 0 0'' @ [CHR 0x0A] @ ''S 1 PlayOn 0 0'' @ [CHR 0x0A]
          @ ''S 2 PlayOn 0 0'' @ [CHR 0x0A]) False"
  let ?stR = "example_replay_state\<lparr>ps_storage := (ps_storage example_replay_state)\<lparr>maxStates := 1\<rparr>\<rparr>"
  have wfR: "it_wf ?itR" by (rule it_wf_new_DataIterator)
  note c3 = C4_counted_states_per_pass[OF wfR, of example_util ?stR no_json
            "''(show 1)''" example_state "select_parseBallFcn (ps_log example_state)"
            "select_parseAgentFcn example_util (ps_log example_state)" ?d False False True
            "snd (ULG_parse example_util new_parser ?d False False)"]
  have r1: "ps_log ?stR = ps_log example_replay_state" "maxStates (ps_storage ?stR) = 1" by simp_all
  from c3[THEN conjunct2, THEN conjunct1]
  have plR: "pass_limited
       (Replay_line example_util no_json (select_parseBallFcn (ps_log example_replay_state))
          (select_parseAgentFcn example_util (ps_log example_replay_state))) 1 ?itR ?stR
       (parseReplayBody example_util no_json ?itR ?stR)"
    unfolding r1 .
  from wf pl res f plR example_replay_pass l1 l2 show ?thesis by blast
qed

text \<open>
  Claim C4 as the specification words it does not hold: the limit is on the lines counted
  as new states, not on the lines decoded. One pass of the ULG decoder, with the limit 100,
  decodes all 101 message lines of a text and schedules no continuation.
\<close>

theorem C4_pass_decodes_101_lines:
  "maxStates (ps_storage example_state) = 100
   \<and> length (snd (snd (snd (parseULGBody example_util
        (new_DataIterator (concat (replicate 101 (''(msg 1)'' @ [CHR 0x0A]))) False) example_state)))) = 101
   \<and> \<not> fst (snd (snd (parseULGBody example_util
        (new_DataIterator (concat (replicate 101 (''(msg 1)'' @ [CHR 0x0A]))) False) example_state)))"
proof -
  let ?it = "new_DataIterator (concat (replicate 101 (''(msg 1)'' @ [CHR 0x0A]))) False"
  obtain it' st' sched dcd where pb: "parse_body (ULG_line example_util) ?it example_state = (it', st', sched, dcd)"
    by (cases "parse_body (ULG_line example_util) ?it example_state") auto
  have al: "all_lines (concat (replicate 101 (''(msg 1)'' @ [CHR 0x0A]))) = replicate 101 ''(msg 1)''"
    by (rule all_lines_replicate) (simp_all add: is_eol_def)
  have t: "todo ?it = replicate 101 ''(msg 1)''"
    using al by (simp add: todo_def lines_of_def it_rest_def new_DataIterator_def)
  have un: "\<forall>l\<in>set (todo ?it). \<forall>s. \<not> fst (ULG_line example_util l s)"
    unfolding t by (simp add: ULG_line_def)
  have "\<not> sched \<and> map fst dcd = todo ?it \<and> filter snd dcd = []"
    by (rule parse_body_uncounted[OF _ framed_ULG_line un _ pb]) (simp_all add: example_state_limit)
  then have "\<not> sched \<and> length dcd = 101" using t by (metis length_map length_replicate)
  then show ?thesis using pb by (simp add: parseULGBody_def example_state_limit)
qed

section \<open>The lists of game states and scores\<close>

lemma collect_changes_prev:
  "ref a = ref b \<Longrightarrow> collect_changes ref a xs = collect_changes ref b xs"
  by (induction xs) simp_all

lemma collect_changes_runs:
  assumes "successively (\<lambda>a b. (ref a = ref b) = (f a = f b)) (x # xs)"
  shows "map f (x # collect_changes ref x xs) = remdups_adj (map f (x # xs))"
  using assms
proof (induction xs arbitrary: x)
  case Nil
  then show ?case by simp
next
  case (Cons y ys)
  from Cons.prems have xy: "(ref x = ref y) = (f x = f y)"
    and s: "successively (\<lambda>a b. (ref a = ref b) = (f a = f b)) (y # ys)" by simp_all
  note ih = Cons.IH[OF s]
  show ?case
  proof (cases "ref x = ref y")
    case True
    then have "collect_changes ref x (y # ys) = collect_changes ref y ys"
      by (simp add: collect_changes_prev[of ref x y])
    with ih True xy show ?thesis by simp
  next
    case False
    with ih xy show ?thesis by simp
  qed
qed

lemma collect_changes_refs:
  "map ref (x # collect_changes ref x xs) = remdups_adj (map ref (x # xs))"
proof -
  have "successively (\<lambda>a b. (ref a = ref b) = (ref a = ref b)) ys" for ys :: "'a list"
    by (induction ys rule: induct_list012) simp_all
  then show ?thesis by (rule collect_changes_runs)
qed

lemma onStatesUpdated_lists:
  assumes "states lg = s0 # rest"
  shows "gameStateList (onStatesUpdated lg)
           = ws_gameState s0 # collect_changes gs_ref (ws_gameState s0) (map ws_gameState rest)"
    and "gameScoreList (onStatesUpdated lg)
           = ws_score s0 # collect_changes sc_ref (ws_score s0) (map ws_score rest)"
  using assms by (simp_all add: onStatesUpdated_def)

lemma finalize_lists:
  "gameStateList (finalize lg) = gameStateList (onStatesUpdated lg)"
  "gameScoreList (finalize lg) = gameScoreList (onStatesUpdated lg)"
  by (simp_all add: finalize_def onStatesUpdated_def split: list.splits)

text \<open>
  Claim C3, as the code has it. When the log has states, \<^verbatim>\<open>onStatesUpdated\<close> (and
  \<^verbatim>\<open>finalize\<close>, which calls it) leaves in \<^verbatim>\<open>gameStateList\<close> and \<^verbatim>\<open>gameScoreList\<close> one entry per
  maximal run of consecutive world states that hold the same \<^verbatim>\<open>GameState\<close> (\<^verbatim>\<open>GameScore\<close>)
  instance. These are the runs of equal play modes (scores) when consecutive world states
  hold the same instance exactly when they hold the same value. \<^verbatim>\<open>setPlaymode\<close> and
  \<^verbatim>\<open>setScore\<close> keep the instance when the value does not change.
\<close>

theorem C3_change_lists:
  assumes "states lg \<noteq> []"
  shows "map gs_ref (gameStateList (onStatesUpdated lg))
           = remdups_adj (map (gs_ref \<circ> ws_gameState) (states lg))
       \<and> map sc_ref (gameScoreList (onStatesUpdated lg))
           = remdups_adj (map (sc_ref \<circ> ws_score) (states lg))
       \<and> (successively (\<lambda>a b. (gs_ref a = gs_ref b) = (playMode a = playMode b))
             (map ws_gameState (states lg)) \<longrightarrow>
           map playMode (gameStateList (onStatesUpdated lg))
             = remdups_adj (map (playMode \<circ> ws_gameState) (states lg)))
       \<and> (successively (\<lambda>a b. (sc_ref a = sc_ref b) = (score_goals a = score_goals b))
             (map ws_score (states lg)) \<longrightarrow>
           map score_goals (gameScoreList (onStatesUpdated lg))
             = remdups_adj (map (score_goals \<circ> ws_score) (states lg)))
       \<and> gameStateList (finalize lg) = gameStateList (onStatesUpdated lg)
       \<and> gameScoreList (finalize lg) = gameScoreList (onStatesUpdated lg)
       \<and> (playMode (gameState p) = pm \<longrightarrow> setPlaymode pm p = p)
       \<and> (js_eq (goalsLeft (score p)) gl \<and> js_eq (goalsRight (score p)) gr
            \<and> js_eq (penaltyScoreLeft (score p)) psl \<and> js_eq (penaltyMissLeft (score p)) pml
            \<and> js_eq (penaltyScoreRight (score p)) psr \<and> js_eq (penaltyMissRight (score p)) pmr \<longrightarrow>
           setScore gl gr psl pml psr pmr p = p)"
proof -
  obtain s0 rest where st: "states lg = s0 # rest" using assms by (cases "states lg") auto
  note l = onStatesUpdated_lists[OF st]
  have a: "map gs_ref (gameStateList (onStatesUpdated lg))
           = remdups_adj (map (gs_ref \<circ> ws_gameState) (states lg))"
    using collect_changes_refs[of gs_ref "ws_gameState s0" "map ws_gameState rest"]
    by (simp add: l st)
  have b: "map sc_ref (gameScoreList (onStatesUpdated lg))
           = remdups_adj (map (sc_ref \<circ> ws_score) (states lg))"
    using collect_changes_refs[of sc_ref "ws_score s0" "map ws_score rest"]
    by (simp add: l st)
  have c: "successively (\<lambda>a b. (gs_ref a = gs_ref b) = (playMode a = playMode b))
             (map ws_gameState (states lg)) \<longrightarrow>
           map playMode (gameStateList (onStatesUpdated lg))
             = remdups_adj (map (playMode \<circ> ws_gameState) (states lg))"
    using collect_changes_runs[of gs_ref playMode "ws_gameState s0" "map ws_gameState rest"]
    by (simp add: l st)
  have d: "successively (\<lambda>a b. (sc_ref a = sc_ref b) = (score_goals a = score_goals b))
             (map ws_score (states lg)) \<longrightarrow>
           map score_goals (gameScoreList (onStatesUpdated lg))
             = remdups_adj (map (score_goals \<circ> ws_score) (states lg))"
    using collect_changes_runs[of sc_ref score_goals "ws_score s0" "map ws_score rest"]
    by (simp add: l st)
  have e: "playMode (gameState p) = pm \<longrightarrow> setPlaymode pm p = p"
    by (simp add: setPlaymode_def)
  have f: "js_eq (goalsLeft (score p)) gl \<and> js_eq (goalsRight (score p)) gr
            \<and> js_eq (penaltyScoreLeft (score p)) psl \<and> js_eq (penaltyMissLeft (score p)) pml
            \<and> js_eq (penaltyScoreRight (score p)) psr \<and> js_eq (penaltyMissRight (score p)) pmr \<longrightarrow>
           setScore gl gr psl pml psr pmr p = p"
    by (simp add: setScore_def)
  from a b c d e f finalize_lists[of lg] show ?thesis by simp
qed

theorem C3_change_lists_witness:
  "states example_score_log \<noteq> []
   \<and> map (goalsLeft \<circ> ws_score) (states example_score_log) = [Fin 0, Fin 0, Fin 0, Fin 1, Fin 1]
   \<and> map score_goals (gameScoreList (onStatesUpdated example_score_log))
       = [(Fin 0, Fin 0, Fin 0, Fin 0, Fin 0, Fin 0), (Fin 1, Fin 0, Fin 0, Fin 0, Fin 0, Fin 0)]
   \<and> map sc_ref (gameScoreList (finalize example_score_log)) = [1, 2]
   \<and> map playMode (gameStateList (onStatesUpdated example_score_log)) = [''unknown'']
   \<and> setPlaymode ''unknown'' (new_PartialWorldState (Fin 0) (Fin (1 / 10)) (Fin 0))
       = new_PartialWorldState (Fin 0) (Fin (1 / 10)) (Fin 0)
   \<and> setScore (Fin 0) (Fin 0) (Fin 0) (Fin 0) (Fin 0) (Fin 0) (new_PartialWorldState (Fin 0) (Fin (1 / 10)) (Fin 0))
       = new_PartialWorldState (Fin 0) (Fin (1 / 10)) (Fin 0)"
proof -
  have s: "states example_score_log =
     (let g = \<lparr>gs_ref = 0, gs_time = Fin 0, playMode = ''unknown''\<rparr>;
          s0 = new_GameScore 1 (Fin 0) (Fin 0) (Fin 0) (Fin 0) (Fin 0) (Fin 0) (Fin 0);
          s1 = new_GameScore 2 (Fin (3 / 10)) (Fin 1) (Fin 0) (Fin 0) (Fin 0) (Fin 0) (Fin 0)
      in [example_world_state g s0 (Fin 0), example_world_state g s0 (Fin (1 / 10)),
          example_world_state g s0 (Fin (2 / 10)), example_world_state g s1 (Fin (3 / 10)),
          example_world_state g s1 (Fin (4 / 10))])"
    by (simp add: example_score_log_def Let_def)
  show ?thesis
    using C3_change_lists[of example_score_log "new_PartialWorldState (Fin 0) (Fin (1 / 10)) (Fin 0)"
            "''unknown''" "Fin 0" "Fin 0" "Fin 0" "Fin 0" "Fin 0" "Fin 0"]
    by (simp add: s Let_def example_world_state_def new_GameScore_def score_goals_def
          new_PartialWorldState_def js_eq_def)
qed

text \<open>
  Claim C3 as the specification words it does not hold: after a play mode has changed and
  changed back between two commits, two consecutive world states have the same play mode
  but different \<^verbatim>\<open>GameState\<close> instances, and the list has an entry for each.
\<close>

theorem C3_equal_play_modes_two_entries:
  "(case lp_log (snd (ULG_parse example_util new_parser
       (''ULG5'' @ [CHR 0x0A] @ ''(show 1 ((l 1) 0 0 0 0 0 0 0))'' @ [CHR 0x0A]
        @ ''(playmode 1 play_on)'' @ [CHR 0x0A] @ ''(playmode 1 unknown)'' @ [CHR 0x0A]
        @ ''(show 2 ((l 1) 0 0 0 0 0 0 0))'' @ [CHR 0x0A]) False False)) of
      None \<Rightarrow> False
    | Some lg \<Rightarrow> map (playMode \<circ> ws_gameState) (states lg) = [''unknown'', ''unknown'']
         \<and> fullyLoaded lg
         \<and> map gs_ref (gameStateList lg) = [0, 3]
         \<and> map playMode (gameStateList lg) = [''unknown'', ''unknown''])"
  by (simp add: run_defs)

section \<open>A text that arrives in pieces\<close>

lemma scan_append:
  assumes "scan r = Some (tok, r2)" and "r2 \<noteq> []"
  shows "scan (r @ c) = Some (tok, r2 @ c)"
proof -
  from scan_parts[OF assms(1)] obtain eols where
    p: "r = eols @ tok @ r2" "\<forall>c\<in>set eols. is_eol c" "tok \<noteq> []" "\<forall>c\<in>set tok. \<not> is_eol c"
       "r2 = [] \<or> is_eol (hd r2)" by blast
  have "scan (eols @ tok @ (r2 @ c)) = Some (tok, r2 @ c)"
    by (rule scan_of_parts) (use p assms(2) in auto)
  then show ?thesis by (simp add: p(1))
qed

lemma all_lines_avail:
  "all_lines (r @ c) = fst (avail r) @ all_lines (snd (avail r) @ c)"
proof (induction r rule: avail.induct)
  case (1 r)
  show ?case
  proof (cases "scan r")
    case None
    then show ?thesis by (simp add: avail.simps[of r])
  next
    case (Some a)
    obtain tok r2 where a: "a = (tok, r2)" by (cases a)
    show ?thesis
    proof (cases "r2 = []")
      case True
      then show ?thesis using Some a by (simp add: avail.simps[of r])
    next
      case False
      have s: "scan (r @ c) = Some (tok, r2 @ c)"
        using scan_append[OF Some[unfolded a] False] .
      obtain ls r' where av: "avail r2 = (ls, r')" by (cases "avail r2")
      from "1.IH"[OF Some[unfolded a] refl False] av
      have ih: "all_lines (r2 @ c) = ls @ all_lines (r' @ c)" by simp
      have "avail r = (tok # ls, r')"
        using Some a False av by (simp add: avail.simps[of r])
      then show ?thesis
        using ih s by (simp add: all_lines.simps[of "r @ c"])
    qed
  qed
qed

lemma future_partial:
  "it_partialData it \<Longrightarrow> future it c = todo it @ all_lines (snd (avail (it_rest it)) @ c)"
  by (simp add: future_def todo_def lines_of_def all_lines_avail[of "it_rest it" c])

lemma future_complete: "\<not> it_partialData it \<Longrightarrow> future it [] = todo it"
  by (simp add: future_def todo_def lines_of_def)

lemma parse_body_future:
  assumes "it_wf it" and "framed h" and "parse_body h it st = (it', st', sched, dcd)"
    and "it_partialData it \<or> c = []"
  obtains it2 where "it_wf it2" and "it_data it2 = it_data it"
    and "it_partialData it2 = it_partialData it"
    and "future it c = map fst dcd @ future it2 c"
    and "sched \<longleftrightarrow> it_line it2 \<noteq> None" and "it_line it2 = None \<longrightarrow> lines_of it2 = []"
    and "it' = (if \<not> sched \<and> \<not> it_partialData it then it_dispose it2 else it2)"
    and "st' = pass_state (run_lines h st (map fst dcd)) (filter snd dcd \<noteq> [])
               (\<not> sched \<and> \<not> it_partialData it)"
proof -
  from assms(1-3) obtain it2 where f: "it_wf it2" "it_data it2 = it_data it"
    "it_partialData it2 = it_partialData it" "todo it = map fst dcd @ todo it2"
    "sched \<longleftrightarrow> it_line it2 \<noteq> None" "it_line it2 = None \<longrightarrow> lines_of it2 = []"
    "it_partialData it \<longrightarrow> snd (avail (it_rest it2)) = snd (avail (it_rest it))"
    "it' = (if \<not> sched \<and> \<not> it_partialData it then it_dispose it2 else it2)"
    "st' = pass_state (run_lines h st (map fst dcd)) (filter snd dcd \<noteq> [])
               (\<not> sched \<and> \<not> it_partialData it)"
    by (rule parse_body_linesE)
  have "future it c = map fst dcd @ future it2 c"
  proof (cases "it_partialData it")
    case True
    then show ?thesis using f(3,4,7) by (simp add: future_partial)
  next
    case False
    with assms(4) have "c = []" by simp
    then show ?thesis using False f(3,4) by (simp add: future_complete)
  qed
  with f show thesis by (intro that)
qed

section \<open>States up to the derived fields\<close>

lemma set_derived_twice [simp]: "set_derived d (set_derived e lg) = set_derived d lg"
  by (cases d, cases e) (simp add: set_derived_def)

lemma core_with_derived [simp]: "core (with_derived d st) = core st"
  by (simp add: core_def with_derived_def)

lemma core_core [simp]: "core (core st) = core st"
  by (simp add: core_def with_derived_def)

lemma core_states: "core a = core b \<Longrightarrow> states (ps_log a) = states (ps_log b)"
proof -
  have "states (ps_log (core st)) = states (ps_log st)" for st
    by (simp add: core_def wd)
  from this[of a] this[of b] show "core a = core b \<Longrightarrow> states (ps_log a) = states (ps_log b)"
    by simp
qed

lemma core_maxStates: "core a = core b \<Longrightarrow> maxStates (ps_storage a) = maxStates (ps_storage b)"
proof -
  have "maxStates (ps_storage (core st)) = maxStates (ps_storage st)" for st
    by (simp add: core_def with_derived_def)
  from this[of a] this[of b]
  show "core a = core b \<Longrightarrow> maxStates (ps_storage a) = maxStates (ps_storage b)" by simp
qed

lemma framed_core:
  assumes "framed h" and "core a = core b"
  shows "core (snd (h l a)) = core (snd (h l b))" and "fst (h l a) = fst (h l b)"
proof -
  have "h l (core a) = (fst (h l a), core (snd (h l a)))"
    unfolding core_def by (rule framed_eq[OF assms(1)])
  moreover have "h l (core b) = (fst (h l b), core (snd (h l b)))"
    unfolding core_def by (rule framed_eq[OF assms(1)])
  ultimately show "core (snd (h l a)) = core (snd (h l b))" and "fst (h l a) = fst (h l b)"
    using assms(2) by simp_all
qed

lemma core_run_lines:
  assumes "framed h" and "core a = core b"
  shows "core (run_lines h a ls) = core (run_lines h b ls)"
  using assms(2)
proof (induction ls arbitrary: a b)
  case Nil
  then show ?case by (simp add: run_lines_def)
next
  case (Cons l ls)
  from framed_core(1)[OF assms(1) Cons.prems]
  have "core (snd (h l a)) = core (snd (h l b))" .
  from Cons.IH[OF this] show ?case by (simp add: run_lines_def)
qed

lemma run_lines_append: "run_lines h st (xs @ ys) = run_lines h (run_lines h st xs) ys"
  by (simp add: run_lines_def)

lemma onStatesUpdated_derived: "\<exists>d. onStatesUpdated lg = set_derived d lg"
proof (cases "states lg")
  case Nil
  have "lg = set_derived (startTime lg, endTime lg, duration lg, gameStateList lg, gameScoreList lg) lg"
    by (simp add: set_derived_def)
  then have "onStatesUpdated lg
      = set_derived (startTime lg, endTime lg, duration lg, gameStateList lg, gameScoreList lg) lg"
    using Nil by (simp add: onStatesUpdated_def)
  then show ?thesis by (rule exI)
next
  case (Cons s0 rest)
  have "onStatesUpdated lg = set_derived (ws_time s0, ws_time (last (states lg)),
      js_sub (ws_time (last (states lg))) (ws_time s0),
      ws_gameState s0 # collect_changes gs_ref (ws_gameState s0) (map ws_gameState rest),
      ws_score s0 # collect_changes sc_ref (ws_score s0) (map ws_score rest)) lg"
    using Cons by (simp add: onStatesUpdated_def set_derived_def)
  then show ?thesis by (rule exI)
qed

lemma core_onStatesUpdated [simp]: "core (st\<lparr>ps_log := onStatesUpdated (ps_log st)\<rparr>) = core st"
proof -
  obtain d where "onStatesUpdated (ps_log st) = set_derived d (ps_log st)"
    using onStatesUpdated_derived by blast
  then have "st\<lparr>ps_log := onStatesUpdated (ps_log st)\<rparr> = with_derived d st"
    by (simp add: with_derived_def)
  then show ?thesis by simp
qed

lemma core_pass_state_open [simp]: "core (pass_state st c False) = core st"
  by (simp add: pass_state_def)

lemma sd_fullyLoaded [wd]:
  "fullyLoaded_update f (set_derived d lg) = set_derived d (fullyLoaded_update f lg)"
  by (simp add: set_derived_def split: prod.splits)

lemma wd_finish [wd]: "finish (with_derived d st) = with_derived d (finish st)"
  by (simp add: finish_def Let_def wd)

lemma core_finish_cong:
  assumes "core a = core b"
  shows "core (finish a) = core (finish b)"
proof -
  have "core (finish st) = finish (core st)" for st
    by (simp add: core_def wd)
  with assms show ?thesis by simp
qed

lemma core_pass_state_finished [simp]: "core (pass_state st c True) = core (finish st)"
proof -
  have a: "core (let st4 = snd (append_partial s) in st4\<lparr>ps_log := finalize (ps_log st4)\<rparr>)
             = core (finish s)" for s
  proof -
    obtain d where d: "onStatesUpdated ((ps_log (snd (append_partial s)))\<lparr>fullyLoaded := True\<rparr>)
        = set_derived d ((ps_log (snd (append_partial s)))\<lparr>fullyLoaded := True\<rparr>)"
      using onStatesUpdated_derived by blast
    have "(let st4 = snd (append_partial s) in st4\<lparr>ps_log := finalize (ps_log st4)\<rparr>)
            = with_derived d (finish s)"
      by (simp add: finish_def Let_def finalize_def d with_derived_def)
    then show ?thesis by simp
  qed
  have b: "core (finish (st\<lparr>ps_log := onStatesUpdated (ps_log st)\<rparr>)) = core (finish st)"
    by (rule core_finish_cong) simp
  show ?thesis
    using a[of st] a[of "st\<lparr>ps_log := onStatesUpdated (ps_log st)\<rparr>"] b
    by (simp add: pass_state_def Let_def)
qed

section \<open>The decoder between two passes\<close>

lemma decoder_okD:
  assumes "decoder_ok hs"
  shows "framed (hs lg)" and "hs (ps_log (snd (hs lg l st))) = hs (ps_log st)"
    and "hs (ps_log (pass_state st c f)) = hs (ps_log st)"
  using assms by (simp_all add: decoder_ok_def)

lemma hs_run_lines:
  assumes "decoder_ok hs"
  shows "hs (ps_log (run_lines (hs lg) st ls)) = hs (ps_log st)"
  by (induction ls arbitrary: st) (simp_all add: run_lines_def decoder_okD(2)[OF assms])

lemma parse_body_progress:
  assumes "it_line it = Some l" and "0 < maxStates (ps_storage st)"
    and "parse_body h it st = (it', st', sched, dcd)"
  shows "dcd \<noteq> []"
proof -
  obtain counts st1 where h: "h l st = (counts, st1)" by (cases "h l st")
  obtain line1 it1 where nx: "it_next it = (line1, it1)" by (cases "it_next it")
  obtain line2 it2 st2 cnt2 dcd2 where
    bl: "body_loop h line1 it1 st1 (if counts then 0 + 1 else 0) ([] @ [(l, counts)])
           = (line2, it2, st2, cnt2, dcd2)"
    by (cases "body_loop h line1 it1 st1 (if counts then 0 + 1 else 0) ([] @ [(l, counts)])") auto
  have b0: "body_loop h (Some l) it st 0 [] = (line2, it2, st2, cnt2, dcd2)"
    using assms(2) h nx bl by (simp add: body_loop.simps[of h "Some l"])
  from body_loop_run_flags[OF bl] have ne: "dcd2 \<noteq> []" by auto
  have "dcd = dcd2"
    using assms(1,3) b0 by (auto simp: parse_body_def Let_def split: if_splits)
  with ne show ?thesis by simp
qed

lemma future_nonpartial_rest:
  assumes "it_line it = None" and "lines_of it = []" and "\<not> it_partialData it"
  shows "future it [] = []"
  using assms by (simp add: future_complete todo_def)

lemma pass_step:
  assumes ok: "decoder_ok hs"
    and h: "h = hs (ps_log st0)" and hl: "hs (ps_log st) = h"
    and wf: "it_wf it" and pc: "it_partialData it \<or> c = []"
    and acc: "\<not> incr \<longrightarrow> it_data it = acc"
    and co: "core st = core (run_lines h st0 done)"
    and L: "L = done @ future it c"
    and pos: "0 < maxStates (ps_storage st)"
    and ns: "\<not> lp_scheduled P"
  shows "if it_partialData it then pinv hs st0 L c acc incr (after_body P (parse_body h it st))
         else pfin hs st0 L (after_body P (parse_body h it st))"
proof -
  have fr: "framed h" unfolding h by (rule decoder_okD(1)[OF ok])
  obtain it' st' sched dcd where pb: "parse_body h it st = (it', st', sched, dcd)"
    by (cases "parse_body h it st") auto
  from wf fr pb pc obtain it2 where f: "it_wf it2" "it_data it2 = it_data it"
    "it_partialData it2 = it_partialData it" "future it c = map fst dcd @ future it2 c"
    "sched \<longleftrightarrow> it_line it2 \<noteq> None" "it_line it2 = None \<longrightarrow> lines_of it2 = []"
    "it' = (if \<not> sched \<and> \<not> it_partialData it then it_dispose it2 else it2)"
    "st' = pass_state (run_lines h st (map fst dcd)) (filter snd dcd \<noteq> [])
               (\<not> sched \<and> \<not> it_partialData it)"
    by (rule parse_body_future)
  let ?ds = "map fst dcd"
  have run: "core (run_lines h st ?ds) = core (run_lines h st0 (done @ ?ds))"
    using core_run_lines[OF fr co, of ?ds] by (simp add: run_lines_append)
  have hs': "hs (ps_log st') = hs (ps_log st0)"
    using hl h by (simp add: f(8) decoder_okD(3)[OF ok] hs_run_lines[OF ok, of "ps_log st0"])
  have m': "0 < maxStates (ps_storage st')"
    using pos by (simp add: f(8) maxStates_run_lines[OF fr])
  have L': "L = (done @ ?ds) @ future it2 c" using L f(4) by simp
  have P': "after_body P (parse_body h it st)
       = \<lparr>lp_iterator = Some it', lp_log = Some (ps_log st'), lp_storage = Some (ps_storage st'),
          lp_scheduled = sched\<rparr>"
    using ns by (simp add: pb after_body_def)
  have st'eq: "\<lparr>ps_log = ps_log st', ps_storage = ps_storage st'\<rparr> = st'" by simp
  show ?thesis
  proof (cases "it_partialData it")
    case True
    have c1: "core st' = core (run_lines h st0 (done @ ?ds))"
      using True run by (simp add: f(8))
    have "pinv hs st0 L c acc incr (after_body P (parse_body h it st))"
      unfolding pinv_def P'
      using True f(1,2,3,5,7) acc hs' m' c1 L' h
      by (intro exI[of _ it2] exI[of _ "ps_log st'"] exI[of _ "ps_storage st'"] exI[of _ "done @ ?ds"])
         (simp add: st'eq)
    with True show ?thesis by simp
  next
    case False
    with pc have c: "c = []" by simp
    show ?thesis
    proof (cases sched)
      case True
      have c1: "core st' = core (run_lines h st0 (done @ ?ds))"
        using True run by (simp add: f(8))
      have "pfin hs st0 L (after_body P (parse_body h it st))"
        unfolding pfin_def P'
        using True False f(1,3,5,7) hs' m' c1 L' h c
        by (intro exI[of _ "ps_log st'"] exI[of _ "ps_storage st'"])
           (auto simp: st'eq intro!: exI[of _ it2] exI[of _ "done @ ?ds"])
      with False show ?thesis by simp
    next
      case nsched: False
      have e: "future it2 [] = []"
        using future_nonpartial_rest[of it2] nsched f(3,5,6) False by simp
      have Ld: "L = done @ ?ds" using L' e c by simp
      have c1: "core st' = core (finish (run_lines h st0 L))"
        using nsched False core_finish_cong[OF run] by (simp add: f(8) Ld)
      have "pfin hs st0 L (after_body P (parse_body h it st))"
        unfolding pfin_def P'
        using nsched hs' m' c1 h
        by (intro exI[of _ "ps_log st'"] exI[of _ "ps_storage st'"]) (simp add: st'eq)
      with False show ?thesis by simp
    qed
  qed
qed

lemma pinvE:
  assumes "pinv hs st0 L c acc incr P"
  obtains it lg sto "done" where "lp_iterator P = Some it" and "lp_log P = Some lg"
    and "lp_storage P = Some sto" and "it_wf it" and "it_partialData it"
    and "lp_scheduled P \<longleftrightarrow> it_line it \<noteq> None" and "\<not> incr \<longrightarrow> it_data it = acc"
    and "hs lg = hs (ps_log st0)" and "0 < maxStates sto"
    and "core \<lparr>ps_log = lg, ps_storage = sto\<rparr> = core (run_lines (hs (ps_log st0)) st0 done)"
    and "L = done @ future it c"
  using assms unfolding pinv_def by (elim exE conjE) (rule that; assumption)

lemma tick_pinv:
  assumes ok: "decoder_ok hs" and inv: "pinv hs st0 L c acc incr P"
  shows "pinv hs st0 L c acc incr (continue_pass hs P)"
proof (cases "lp_scheduled P")
  case False
  with inv show ?thesis by (simp add: continue_pass_def)
next
  case True
  from inv obtain it lg sto "done" where f: "lp_iterator P = Some it" "lp_log P = Some lg"
    "lp_storage P = Some sto" "it_wf it" "it_partialData it"
    "lp_scheduled P \<longleftrightarrow> it_line it \<noteq> None" "\<not> incr \<longrightarrow> it_data it = acc"
    "hs lg = hs (ps_log st0)" "0 < maxStates sto"
    "core \<lparr>ps_log = lg, ps_storage = sto\<rparr> = core (run_lines (hs (ps_log st0)) st0 done)"
    "L = done @ future it c"
    by (rule pinvE)
  have cp: "continue_pass hs P
      = after_body (P\<lparr>lp_scheduled := False\<rparr>)
          (parse_body (hs (ps_log st0)) it \<lparr>ps_log = lg, ps_storage = sto\<rparr>)"
    using True f(1,2,3,8) by (simp add: continue_pass_def run_continuation_def)
  from pass_step[OF ok refl _ f(4) _ f(7) f(10) f(11), where P = "P\<lparr>lp_scheduled := False\<rparr>"] f(5,8,9)
  show ?thesis unfolding cp by simp
qed

lemma ticks_pinv:
  assumes ok: "decoder_ok hs" and inv: "pinv hs st0 L c acc incr P"
  shows "pinv hs st0 L c acc incr ((continue_pass hs ^^ n) P)"
  by (induction n) (simp_all add: inv tick_pinv[OF ok])

lemma tick_pfin:
  assumes ok: "decoder_ok hs" and fin: "pfin hs st0 L P" and sc: "lp_scheduled P"
  shows "pfin hs st0 L (continue_pass hs P)"
    and "lp_scheduled (continue_pass hs P) \<longrightarrow> waiting (continue_pass hs P) < waiting P"
proof -
  from fin sc obtain lg sto it "done" where f: "lp_log P = Some lg" "lp_storage P = Some sto"
    "hs lg = hs (ps_log st0)" "0 < maxStates sto" "lp_iterator P = Some it" "it_wf it"
    "\<not> it_partialData it" "it_line it \<noteq> None"
    "core \<lparr>ps_log = lg, ps_storage = sto\<rparr> = core (run_lines (hs (ps_log st0)) st0 done)"
    "L = done @ future it []"
    unfolding pfin_def by auto
  let ?h = "hs (ps_log st0)"
  let ?st = "\<lparr>ps_log = lg, ps_storage = sto\<rparr>"
  have cp: "continue_pass hs P = after_body (P\<lparr>lp_scheduled := False\<rparr>) (parse_body ?h it ?st)"
    using sc f(1,2,3,5) by (simp add: continue_pass_def run_continuation_def)
  from pass_step[OF ok refl _ f(6) _ _ f(9) f(10),
      where P = "P\<lparr>lp_scheduled := False\<rparr>" and incr = False and acc = "it_data it"] f(3,4,7)
  show "pfin hs st0 L (continue_pass hs P)" unfolding cp by simp
  obtain it' st' sched dcd where pb: "parse_body ?h it ?st = (it', st', sched, dcd)"
    by (cases "parse_body ?h it ?st") auto
  have fr: "framed ?h" by (rule decoder_okD(1)[OF ok])
  from f(8) obtain l where l: "it_line it = Some l" by auto
  have ne: "dcd \<noteq> []"
    using parse_body_progress[OF l _ pb] f(4) by simp
  from f(6) fr pb obtain it2 where g: "future it [] = map fst dcd @ future it2 []"
    "it' = (if \<not> sched \<and> \<not> it_partialData it then it_dispose it2 else it2)"
    by (rule parse_body_future[where c = "[]"]) simp_all
  have "sched \<longrightarrow> length (future it' []) < length (future it [])"
    using g ne by auto
  then show "lp_scheduled (continue_pass hs P) \<longrightarrow> waiting (continue_pass hs P) < waiting P"
    unfolding cp by (simp add: pb after_body_def waiting_def f(5))
qed

lemma run_queue_pfin:
  assumes ok: "decoder_ok hs" and fin: "pfin hs st0 L P"
  shows "\<exists>PF. run_queue (continue_pass hs) P = Some PF \<and> pfin hs st0 L PF \<and> \<not> lp_scheduled PF"
  using fin
proof (induction "waiting P" arbitrary: P rule: less_induct)
  case less
  show ?case
  proof (cases "lp_scheduled P")
    case False
    with less.prems show ?thesis by (simp add: run_queue.simps)
  next
    case True
    let ?P = "continue_pass hs P"
    note t = tick_pfin[OF ok less.prems True]
    have r: "run_queue (continue_pass hs) P = run_queue (continue_pass hs) ?P"
      using True by (subst run_queue.simps) simp
    show ?thesis
    proof (cases "lp_scheduled ?P")
      case False
      with t(1) show ?thesis unfolding r by (simp add: run_queue.simps)
    next
      case sc: True
      with t(2) have "waiting ?P < waiting P" by simp
      from less.hyps[OF this t(1)] show ?thesis unfolding r .
    qed
  qed
qed

lemma it_update_rest:
  assumes wf: "it_wf it" and acc: "\<not> incr \<longrightarrow> it_data it = acc"
  shows "\<exists>it2. it_update it (if incr then ch else acc @ ch) partial incr = (it_line it = None, it2)
           \<and> it_wf it2 \<and> it_line it2 = it_line it \<and> it_partialData it2 = partial
           \<and> it_rest it2 = it_rest it @ ch \<and> (\<not> incr \<longrightarrow> it_data it2 = acc @ ch)"
proof (cases incr)
  case True
  then show ?thesis
    by (simp add: it_update_def Let_def it_wf_def it_rest_def)
next
  case False
  with acc have d: "it_data it = acc" by simp
  have "it_lastIndex it \<le> length acc" using wf d by (simp add: it_wf_def)
  then show ?thesis using False d
    by (simp add: it_update_def Let_def it_wf_def it_rest_def)
qed

lemma progress_step:
  assumes ok: "decoder_ok hs" and pc: "parse_continues hs msg parse"
    and inv: "pinv hs st0 L (ch @ c) acc incr P"
    and fl: "partial \<or> c = []"
  shows "if partial then pinv hs st0 L c (acc @ ch) incr
                          (snd (parse P (if incr then ch else acc @ ch) partial incr))
         else pfin hs st0 L (snd (parse P (if incr then ch else acc @ ch) partial incr))"
proof -
  from inv obtain it lg sto "done" where f: "lp_iterator P = Some it" "lp_log P = Some lg"
    "lp_storage P = Some sto" "it_wf it" "it_partialData it"
    "lp_scheduled P \<longleftrightarrow> it_line it \<noteq> None" "\<not> incr \<longrightarrow> it_data it = acc"
    "hs lg = hs (ps_log st0)" "0 < maxStates sto"
    "core \<lparr>ps_log = lg, ps_storage = sto\<rparr> = core (run_lines (hs (ps_log st0)) st0 done)"
    "L = done @ future it (ch @ c)"
    by (rule pinvE)
  let ?d = "if incr then ch else acc @ ch"
  let ?h = "hs (ps_log st0)"
  let ?st = "\<lparr>ps_log = lg, ps_storage = sto\<rparr>"
  from it_update_rest[OF f(4) f(7), of ch partial] obtain it2 where
    u: "it_update it ?d partial incr = (it_line it = None, it2)" "it_wf it2" "it_line it2 = it_line it"
       "it_partialData it2 = partial" "it_rest it2 = it_rest it @ ch" "\<not> incr \<longrightarrow> it_data it2 = acc @ ch"
    by blast
  have fu: "future it2 c = future it (ch @ c)"
    by (simp add: future_def u(3,5))
  have L2: "L = done @ future it2 c" using f(11) fu by simp
  have p: "parse P ?d partial incr = parse_progress ?h msg P it lg sto ?d partial incr"
    using pc f(1,2,3,8) unfolding parse_continues_def by metis
  show ?thesis
  proof (cases "it_line it = None")
    case True
    then have ns: "\<not> lp_scheduled P" using f(6) by simp
    have s: "snd (parse P ?d partial incr) = after_body P (parse_body ?h it2 ?st)"
      using True by (simp add: p parse_progress_def u(1))
    from pass_step[OF ok refl _ u(2) _ u(6) f(10) L2 _ ns] f(8,9) fl u(4)
    show ?thesis unfolding s by simp
  next
    case False
    then have sc: "lp_scheduled P" using f(6) by simp
    have s: "snd (parse P ?d partial incr) = P\<lparr>lp_iterator := Some it2\<rparr>"
      using False by (auto simp: p parse_progress_def u(1))
    show ?thesis
    proof (cases partial)
      case True
      have "pinv hs st0 L c (acc @ ch) incr (P\<lparr>lp_iterator := Some it2\<rparr>)"
        unfolding pinv_def
        using True f(2,3,8,9,10) u(2,3,4,6) sc False L2
        by (intro exI[of _ it2] exI[of _ lg] exI[of _ sto] exI[of _ "done"]) simp
      with True show ?thesis unfolding s by simp
    next
      case np: False
      with fl have c: "c = []" by simp
      have "pfin hs st0 L (P\<lparr>lp_iterator := Some it2\<rparr>)"
        unfolding pfin_def
        using np f(2,3,8,9,10) u(2,3,4) sc False L2 c
        by (intro exI[of _ lg] exI[of _ sto]) (auto intro!: exI[of _ it2] exI[of _ "done"])
      with np show ?thesis unfolding s by simp
    qed
  qed
qed

lemma feed_pfin:
  assumes ok: "decoder_ok hs" and pc: "parse_continues hs msg parse"
    and inv: "pinv hs st0 L (concat (map fst cs) @ final) acc incr P"
  shows "pfin hs st0 L (feed parse (continue_pass hs) incr acc P cs final)"
  using inv
proof (induction cs arbitrary: acc P)
  case Nil
  from progress_step[OF ok pc, where ?st0.0 = st0 and L = L and ch = final and c = "[]" and acc = acc
      and incr = incr and P = P and partial = False] Nil
  show ?case by simp
next
  case (Cons a cs)
  obtain ch n where a: "a = (ch, n)" by (cases a)
  let ?P1 = "snd (parse P (if incr then ch else acc @ ch) True incr)"
  from Cons.prems have i0: "pinv hs st0 L (ch @ (concat (map fst cs) @ final)) acc incr P"
    by (simp add: a)
  from progress_step[OF ok pc i0, where partial = True]
  have i1: "pinv hs st0 L (concat (map fst cs) @ final) (acc @ ch) incr ?P1" by simp
  from Cons.IH[OF ticks_pinv[OF ok i1, of n]]
  show ?case by (simp add: a)
qed

section \<open>The kind of a log does not change\<close>

named_theorems kind \<open>the type and the version of the log are kept\<close>

lemma kind_updates [kind]:
  "log_kind (states_update f1 lg) = log_kind lg"
  "log_kind (frequency_update f2 lg) = log_kind lg"
  "log_kind (environmentParams_update f3 lg) = log_kind lg"
  "log_kind (playerParams_update f4 lg) = log_kind lg"
  "log_kind (playerTypes_update f5 lg) = log_kind lg"
  "log_kind (leftTeam_update f6 lg) = log_kind lg"
  "log_kind (rightTeam_update f7 lg) = log_kind lg"
  "log_kind (log_fresh_update f8 lg) = log_kind lg"
  "log_kind (fullyLoaded_update f9 lg) = log_kind lg"
  "log_kind (set_derived d lg) = log_kind lg"
  by (simp_all add: log_kind_def wd)

lemma kind_onStatesUpdated [kind]: "log_kind (onStatesUpdated lg) = log_kind lg"
  using onStatesUpdated_derived[of lg] by (auto simp: kind)

lemma kind_finalize [kind]: "log_kind (finalize lg) = log_kind lg"
  by (simp add: finalize_def kind)

lemma kind_upd_partial [kind]: "log_kind (ps_log (upd_partial f st)) = log_kind (ps_log st)"
  by (simp add: upd_partial_def split: option.splits)

lemma kind_append_partial [kind]: "log_kind (ps_log (snd (append_partial st))) = log_kind (ps_log st)"
  by (simp add: append_partial_def kind split: option.splits prod.splits)

lemma kind_set_side [kind]: "log_kind (ps_log (set_side b t il arr st)) = log_kind (ps_log st)"
  by (simp add: set_side_def kind)

lemma kind_updateFrequency [kind]: "log_kind (snd (updateFrequency U lg)) = log_kind lg"
  by (simp add: updateFrequency_def kind split: sum.splits option.splits)

lemma kind_pass_state [kind]: "log_kind (ps_log (pass_state st c f)) = log_kind (ps_log st)"
  by (simp add: pass_state_def Let_def kind)

lemma kind_parseEnvironmentParams [kind]:
  "log_kind (ps_log (snd (parseEnvironmentParams U J l st))) = log_kind (ps_log st)"
proof -
  have a: "log_kind (snd (updateFrequency U lg)) = log_kind (ps_log st)"
    if "log_kind lg = log_kind (ps_log st)" for lg
    using that by (simp add: kind)
  show ?thesis
    by (auto simp: parseEnvironmentParams_def Let_def kind a split: option.splits prod.splits
          dest!: arg_cong[where f = snd] )
qed

lemma kind_parsePlayerParams [kind]:
  "log_kind (ps_log (snd (parsePlayerParams J l st))) = log_kind (ps_log st)"
  by (simp add: parsePlayerParams_def kind split: option.splits)

lemma kind_parsePlayerTypeParams [kind]:
  "log_kind (ps_log (snd (parsePlayerTypeParams J l st))) = log_kind (ps_log st)"
  by (simp add: parsePlayerTypeParams_def Let_def kind split: option.splits)

lemma kind_Replay_parseTeamLine [kind]:
  "log_kind (ps_log (snd (Replay_parseTeamLine l st))) = log_kind (ps_log st)"
  by (simp add: Replay_parseTeamLine_def Let_def kind)

lemma kind_parseStateLine [kind]:
  "log_kind (ps_log (snd (parseStateLine l st))) = log_kind (ps_log st)"
  by (simp add: parseStateLine_def Let_def kind split: option.splits)

lemma kind_parseAgentState_V0_2D [kind]:
  "log_kind (ps_log (snd (parseAgentState_V0_2D U l st b))) = log_kind (ps_log st)"
  by (simp add: parseAgentState_V0_2D_def Let_def kind split: option.splits)

lemma kind_parseAgentState_V0_3D [kind]:
  "log_kind (ps_log (snd (parseAgentState_V0_3D l st b))) = log_kind (ps_log st)"
  by (simp add: parseAgentState_V0_3D_def Let_def kind split: option.splits)

lemma kind_parseAgentState_V1 [kind]:
  "log_kind (ps_log (snd (parseAgentState_V1 U l st b))) = log_kind (ps_log st)"
  by (simp add: parseAgentState_V1_def Let_def kind split: option.splits sum.splits)

lemma kind_select_parseAgentFcn [kind]:
  "log_kind (ps_log (snd (select_parseAgentFcn U lg l st b))) = log_kind (ps_log st)"
  by (simp add: select_parseAgentFcn_def kind)

lemma kind_Replay_decoder [kind]:
  "log_kind (ps_log (snd (Replay_decoder U J lg l st))) = log_kind (ps_log st)"
  by (simp add: Replay_decoder_def Replay_line_def Let_def kind)

lemma Replay_decoder_kind:
  "log_kind lg = log_kind lg' \<Longrightarrow> Replay_decoder U J lg = Replay_decoder U J lg'"
  by (simp add: Replay_decoder_def select_parseBallFcn_def select_parseAgentFcn_def log_kind_def)

section \<open>Both decoders fit the scheme\<close>

lemma decoder_ok_ULG: "decoder_ok (ULG_decoder U)"
  by (simp add: decoder_ok_def ULG_decoder_def framed_ULG_line)

lemma decoder_ok_Replay: "decoder_ok (Replay_decoder U J)"
  unfolding decoder_ok_def
proof (intro conjI allI)
  show "framed (Replay_decoder U J lg)" for lg
    unfolding Replay_decoder_def by (rule framed_Replay_line_selected)
  show "Replay_decoder U J (ps_log (snd (Replay_decoder U J lg l st))) = Replay_decoder U J (ps_log st)"
    for lg l st
    by (rule Replay_decoder_kind) (rule kind_Replay_decoder)
  show "Replay_decoder U J (ps_log (pass_state st c f)) = Replay_decoder U J (ps_log st)" for st c f
    by (rule Replay_decoder_kind) (rule kind_pass_state)
qed

lemma parse_continues_ULG:
  "parse_continues (ULG_decoder U) ''Empty SServer log file!'' (ULG_parse U)"
  by (simp add: parse_continues_def ULG_parse_def ULG_decoder_def)

lemma parse_continues_Replay:
  "parse_continues (Replay_decoder U J) ''Empty replay file!'' (Replay_parse U J)"
  by (simp add: parse_continues_def Replay_parse_def Replay_decoder_def)

section \<open>The header of a text and of its first piece\<close>

lemma it_next_ahead:
  assumes wf: "it_wf it" and pc: "it_partialData it \<or> c = []" and nx: "it_next it = (x, it')"
  shows "ahead it c = (case x of None \<Rightarrow> [] | Some l \<Rightarrow> [l]) @ ahead it' c"
    and "it_wf it'" and "it_line it' = x" and "it_partialData it' = it_partialData it"
    and "it_data it' = it_data it" and "future it' c = ahead it c"
    and "x = None \<Longrightarrow> \<not> it_partialData it \<Longrightarrow> ahead it [] = []"
proof -
  note n = it_next_lines[OF wf nx]
  show w: "it_wf it'" and l: "it_line it' = x" and "it_partialData it' = it_partialData it"
    and "it_data it' = it_data it"
    using n by simp_all
  show a: "ahead it c = (case x of None \<Rightarrow> [] | Some l \<Rightarrow> [l]) @ ahead it' c"
  proof (cases x)
    case None
    with n show ?thesis by (simp add: ahead_def)
  next
    case (Some l)
    show ?thesis
    proof (cases "it_partialData it")
      case True
      with n Some have "fst (avail (it_rest it)) = l # fst (avail (it_rest it'))"
        and "snd (avail (it_rest it')) = snd (avail (it_rest it))"
        by (simp_all add: lines_of_def)
      then show ?thesis
        using all_lines_avail[of "it_rest it" c] all_lines_avail[of "it_rest it'" c]
        by (simp add: ahead_def Some)
    next
      case False
      with pc have "c = []" by simp
      with n Some False show ?thesis by (simp add: ahead_def lines_of_def)
    qed
  qed
  show "future it' c = ahead it c"
    unfolding a by (simp add: future_def l ahead_def split: option.splits)
  show "x = None \<Longrightarrow> \<not> it_partialData it \<Longrightarrow> ahead it [] = []"
    using n by (simp add: ahead_def lines_of_def)
qed

lemma header_line:
  assumes wp: "it_wf itp" and pp: "it_partialData itp"
    and wf: "it_wf itf" and pf: "\<not> it_partialData itf"
    and rel: "ahead itf [] = ahead itp c"
    and nx: "it_next itp = (Some l, itp')"
  obtains itf' where "it_next itf = (Some l, itf')" and "ahead itf' [] = ahead itp' c"
    and "it_wf itp'" and "it_partialData itp'" and "it_wf itf'" and "\<not> it_partialData itf'"
    and "it_data itp' = it_data itp"
proof -
  obtain x itf' where nf: "it_next itf = (x, itf')" by (cases "it_next itf")
  note a = it_next_ahead[OF wp _ nx, of c]
  note b = it_next_ahead[OF wf _ nf, of "[]"]
  from a(1) pp have ap: "ahead itp c = l # ahead itp' c" by simp
  have x: "x = Some l \<and> ahead itf' [] = ahead itp' c"
  proof (cases x)
    case None
    with b(7) pf have "ahead itf [] = []" by simp
    with rel ap show ?thesis by simp
  next
    case (Some l')
    with b(1) have "ahead itf [] = l' # ahead itf' []" by simp
    with rel ap Some show ?thesis by simp
  qed
  show thesis
    using that[of itf'] nf x a(2,4,5) b(2,4) pp pf by simp
qed

lemma header_last:
  assumes wp: "it_wf itp" and pp: "it_partialData itp"
    and wf: "it_wf itf" and pf: "\<not> it_partialData itf"
    and rel: "ahead itf [] = ahead itp c"
  shows "future (snd (it_next itf)) [] = future (snd (it_next itp)) c"
    and "it_wf (snd (it_next itp))" and "it_partialData (snd (it_next itp))"
    and "it_wf (snd (it_next itf))" and "\<not> it_partialData (snd (it_next itf))"
    and "it_data (snd (it_next itp)) = it_data itp"
proof -
  obtain x itp' where np: "it_next itp = (x, itp')" by (cases "it_next itp")
  obtain y itf' where nf: "it_next itf = (y, itf')" by (cases "it_next itf")
  note a = it_next_ahead[OF wp _ np, of c]
  note b = it_next_ahead[OF wf _ nf, of "[]"]
  show "future (snd (it_next itf)) [] = future (snd (it_next itp)) c"
    using a(6) b(6) pp rel by (simp add: np nf)
  show "it_wf (snd (it_next itp))" "it_partialData (snd (it_next itp))"
    "it_wf (snd (it_next itf))" "\<not> it_partialData (snd (it_next itf))"
    "it_data (snd (it_next itp)) = it_data itp"
    using a(2,4,5) b(2,4) pp pf by (simp_all add: np nf)
qed

lemma ahead_new:
  "ahead (new_DataIterator (c0 @ c) False) [] = ahead (new_DataIterator c0 True) c"
  by (simp add: ahead_def it_rest_def new_DataIterator_def)

lemma Replay_header_pieces:
  assumes wp: "it_wf itp0" and pp: "it_partialData itp0"
    and wf: "it_wf itf0" and pf: "\<not> it_partialData itf0"
    and rel: "ahead itf0 [] = ahead itp0 c"
    and hd: "Replay_header U itp0 = Inr (itp1, r)"
  obtains itf1 where "Replay_header U itf0 = Inr (itf1, r)" and "future itf1 [] = future itp1 c"
    and "it_wf itp1" and "it_partialData itp1" and "it_wf itf1" and "\<not> it_partialData itf1"
    and "it_data itp1 = it_data itp0"
proof -
  note R = that
  obtain x1 itpA where n1': "it_next itp0 = (x1, itpA)" by (cases "it_next itp0")
  from hd n1' obtain line where x1: "x1 = Some line"
    by (cases x1) (auto simp: Replay_header_def)
  note n1 = n1'[unfolded x1]
  from wp pp wf pf rel n1 obtain itfA where m1: "it_next itf0 = (Some line, itfA)"
    and relA: "ahead itfA [] = ahead itpA c" and wpA: "it_wf itpA" and ppA: "it_partialData itpA"
    and wfA: "it_wf itfA" and pfA: "\<not> it_partialData itfA" and dA: "it_data itpA = it_data itp0"
    by (rule header_line)
  have fin: thesis if e: "itp1 = snd (it_next itpK)" and g: "Replay_header U itf0 = Inr (snd (it_next itfK), r)"
    and k: "it_wf itpK" "it_partialData itpK" "it_wf itfK" "\<not> it_partialData itfK"
      "ahead itfK [] = ahead itpK c" "it_data itpK = it_data itp0" for itpK itfK
    using R[of "snd (it_next itfK)"] g header_last[OF k(1,2,3,4,5)] k(6) unfolding e by simp
  let ?sl = "split_sp line"
  consider (rpl) "charAt line 0 = ''R'' \<and> charAt line 1 = ''P'' \<and> charAt line 2 = ''L''"
    | (team) "\<not> (charAt line 0 = ''R'' \<and> charAt line 1 = ''P'' \<and> charAt line 2 = ''L'')"
        "charAt line 0 = ''T''"
    | (ver) "\<not> (charAt line 0 = ''R'' \<and> charAt line 1 = ''P'' \<and> charAt line 2 = ''L'')"
        "charAt line 0 \<noteq> ''T''" "charAt line 0 = ''V''"
    | (none) "\<not> (charAt line 0 = ''R'' \<and> charAt line 1 = ''P'' \<and> charAt line 2 = ''L'')"
        "charAt line 0 \<noteq> ''T''" "charAt line 0 \<noteq> ''V''"
    by blast
  then show thesis
  proof cases
    case rpl
    from hd have l: "\<not> length ?sl < 3"
      using rpl by (auto simp: Replay_header_def n1 Let_def split: if_splits)
    from hd have e: "itp1 = snd (it_next itpA)"
      and r: "r = new_Replay U (if ?sl ! 1 = ''2D'' then TWOD else THREED) (parseInt_str 10 (?sl ! 2))"
      using l rpl by (simp_all add: Replay_header_def n1 Let_def)
    have g: "Replay_header U itf0 = Inr (snd (it_next itfA), r)"
      using l rpl by (simp add: Replay_header_def m1 Let_def r)
    from fin[OF e g wpA ppA wfA pfA relA dA] show thesis .
  next
    case team
    from hd have l: "\<not> length ?sl < 3"
      using team by (auto simp: Replay_header_def n1 Let_def split: if_splits)
    from hd have e: "itp1 = snd (it_next itpA)"
      using l team by (simp add: Replay_header_def n1 Let_def)
    have g: "Replay_header U itf0 = Inr (snd (it_next itfA), r)"
      using hd l team by (simp add: Replay_header_def m1 n1 Let_def)
    from fin[OF e g wpA ppA wfA pfA relA dA] show thesis .
  next
    case ver
    from hd have l: "\<not> length ?sl < 4"
      using ver by (auto simp: Replay_header_def n1 Let_def split: if_splits)
    obtain x2 itpB where n2': "it_next itpA = (x2, itpB)" by (cases "it_next itpA")
    from hd n2' obtain line2 where x2: "x2 = Some line2"
      using ver l by (cases x2) (auto simp: Replay_header_def n1 Let_def)
    note n2 = n2'[unfolded x2]
    from wpA ppA wfA pfA relA n2 obtain itfB where m2: "it_next itfA = (Some line2, itfB)"
      and relB: "ahead itfB [] = ahead itpB c" and wpB: "it_wf itpB" and ppB: "it_partialData itpB"
      and wfB: "it_wf itfB" and pfB: "\<not> it_partialData itfB" and dB: "it_data itpB = it_data itpA"
      by (rule header_line)
    let ?sl2 = "split_sp line2"
    from hd have l2: "\<not> (length ?sl2 < 5 \<or> ?sl2 ! 0 \<noteq> ''T'')"
      using ver l by (auto simp: Replay_header_def n1 n2 Let_def split: if_splits)
    obtain x3 itpC where n3': "it_next itpB = (x3, itpC)" by (cases "it_next itpB")
    from hd n3' obtain line3 where x3: "x3 = Some line3"
      using ver l l2 by (cases x3) (auto simp: Replay_header_def n1 n2 Let_def)
    note n3 = n3'[unfolded x3]
    from wpB ppB wfB pfB relB n3 obtain itfC where m3: "it_next itfB = (Some line3, itfC)"
      and relC: "ahead itfC [] = ahead itpC c" and wpC: "it_wf itpC" and ppC: "it_partialData itpC"
      and wfC: "it_wf itfC" and pfC: "\<not> it_partialData itfC" and dC: "it_data itpC = it_data itpB"
      by (rule header_line)
    let ?sl3 = "split_sp line3"
    from hd have l3: "\<not> (length ?sl3 < 2 \<or> ?sl3 ! 0 \<noteq> ''F'')"
      using ver l l2 by (auto simp: Replay_header_def n1 n2 n3 Let_def split: if_splits)
    from hd have e: "itp1 = snd (it_next itpC)"
      using ver l l2 l3 by (simp add: Replay_header_def n1 n2 n3 Let_def)
    have g: "Replay_header U itf0 = Inr (snd (it_next itfC), r)"
      using hd ver l l2 l3 by (simp add: Replay_header_def m1 m2 m3 n1 n2 n3 Let_def)
    have d: "it_data itpC = it_data itp0" using dA dB dC by simp
    from fin[OF e g wpC ppC wfC pfC relC d] show thesis .
  next
    case none
    with hd show thesis by (auto simp: Replay_header_def n1 Let_def split: if_splits)
  qed
qed

section \<open>The first call\<close>

lemma ULG_parse_first:
  "ULG_parse U new_parser d partial incr =
     (case ULG_header U (new_DataIterator d partial) of
        Inl (e, it1) \<Rightarrow> (Inl e, new_parser\<lparr>lp_iterator := Some it1\<rparr>)
      | Inr (it1, lg) \<Rightarrow>
          parse_result ''Empty SServer log file!'' partial True
            (after_body new_parser (parseULGBody U it1 \<lparr>ps_log = lg, ps_storage = ULG_storage\<rparr>)))"
proof -
  obtain line it1 where n: "it_next (new_DataIterator d partial) = (line, it1)"
    by (cases "it_next (new_DataIterator d partial)")
  show ?thesis
    by (cases "line = None \<or>
              (charAt (the line) 0 \<noteq> ''U'' \<and> charAt (the line) 1 \<noteq> ''L'' \<and> charAt (the line) 2 \<noteq> ''G'')")
       (auto simp: ULG_parse_def ULG_header_def new_parser_def ULG_storage_def Let_def n)
qed

lemma Replay_parse_first:
  "Replay_parse U J new_parser d partial incr =
     (case Replay_header U (new_DataIterator d partial) of
        Inl (e, it1, r) \<Rightarrow>
          (Inl e, new_parser\<lparr>lp_iterator := Some it1, lp_log := r\<rparr>)
      | Inr (it1, replay) \<Rightarrow>
          parse_result ''Empty replay file!'' partial True
            (after_body new_parser
               (parseReplayBody U J it1 \<lparr>ps_log = replay, ps_storage = Replay_storage replay\<rparr>)))"
  by (simp add: Replay_parse_def new_parser_def Replay_storage_def split: sum.splits option.splits)

lemma ULG_header_pieces:
  assumes wp: "it_wf itp0" and pp: "it_partialData itp0"
    and wf: "it_wf itf0" and pf: "\<not> it_partialData itf0"
    and rel: "ahead itf0 [] = ahead itp0 c"
    and hd: "ULG_header U itp0 = Inr (itp1, r)"
  obtains itf1 where "ULG_header U itf0 = Inr (itf1, r)" and "future itf1 [] = future itp1 c"
    and "it_wf itp1" and "it_partialData itp1" and "it_wf itf1" and "\<not> it_partialData itf1"
    and "it_data itp1 = it_data itp0"
proof -
  note R = that
  obtain x1 itpA where n1': "it_next itp0 = (x1, itpA)" by (cases "it_next itp0")
  from hd n1' obtain line where x1: "x1 = Some line"
    by (cases x1) (auto simp: ULG_header_def)
  note n1 = n1'[unfolded x1]
  from wp pp wf pf rel n1 obtain itfA where m1: "it_next itf0 = (Some line, itfA)"
    and relA: "ahead itfA [] = ahead itpA c" and wpA: "it_wf itpA" and ppA: "it_partialData itpA"
    and wfA: "it_wf itfA" and pfA: "\<not> it_partialData itfA" and dA: "it_data itpA = it_data itp0"
    by (rule header_line)
  from hd have e: "itp1 = snd (it_next itpA)"
    by (auto simp: ULG_header_def n1 split: if_splits)
  have g: "ULG_header U itf0 = Inr (snd (it_next itfA), r)"
    using hd by (auto simp: ULG_header_def n1 m1 split: if_splits)
  show thesis
    using R[of "snd (it_next itfA)"] g header_last[OF wpA ppA wfA pfA relA] dA unfolding e by simp
qed

lemma first_pass:
  assumes ok: "decoder_ok hs" and pos: "0 < maxStates sto"
    and wp: "it_wf itp" and pp: "it_partialData itp" and wf: "it_wf itf" and pf: "\<not> it_partialData itf"
    and fu: "future itf [] = future itp c" and dp: "it_data itp = c0"
  shows "pinv hs \<lparr>ps_log = lg, ps_storage = sto\<rparr> (todo itf) c c0 incr
           (after_body new_parser (parse_body (hs lg) itp \<lparr>ps_log = lg, ps_storage = sto\<rparr>))"
    and "pfin hs \<lparr>ps_log = lg, ps_storage = sto\<rparr> (todo itf)
           (after_body new_parser (parse_body (hs lg) itf \<lparr>ps_log = lg, ps_storage = sto\<rparr>))"
proof -
  let ?st0 = "\<lparr>ps_log = lg, ps_storage = sto\<rparr>"
  have h: "hs lg = hs (ps_log ?st0)" by simp
  have co: "core ?st0 = core (run_lines (hs lg) ?st0 [])" by (simp add: run_lines_def)
  have Lp: "todo itf = [] @ future itp c" using fu pf by (simp add: future_complete)
  have Lf: "todo itf = [] @ future itf []" using pf by (simp add: future_complete)
  have ns: "\<not> lp_scheduled new_parser" by (simp add: new_parser_def)
  from pass_step[OF ok h _ wp _ _ co Lp _ ns, of incr c0] pp dp pos
  show "pinv hs ?st0 (todo itf) c c0 incr (after_body new_parser (parse_body (hs lg) itp ?st0))"
    by simp
  from pass_step[OF ok h _ wf _ _ co Lf _ ns, of False "it_data itf"] pf pos
  show "pfin hs ?st0 (todo itf) (after_body new_parser (parse_body (hs lg) itf ?st0))"
    by simp
qed

lemma ULG_first_call:
  assumes "ULG_header U (new_DataIterator c0 True) = Inr (itp1, lg)"
  obtains itf1 where "ULG_header U (new_DataIterator (c0 @ c) False) = Inr (itf1, lg)"
    and "pinv (ULG_decoder U) \<lparr>ps_log = lg, ps_storage = ULG_storage\<rparr> (todo itf1) c c0 incr
           (snd (ULG_parse U new_parser c0 True incr))"
    and "pfin (ULG_decoder U) \<lparr>ps_log = lg, ps_storage = ULG_storage\<rparr> (todo itf1)
           (snd (ULG_parse U new_parser (c0 @ c) False incr'))"
proof -
  note R = that
  have w: "it_wf (new_DataIterator c0 True)" "it_partialData (new_DataIterator c0 True)"
    "it_wf (new_DataIterator (c0 @ c) False)" "\<not> it_partialData (new_DataIterator (c0 @ c) False)"
    by (simp_all add: new_DataIterator_def it_wf_def)
  from w ahead_new[of c0 c] assms obtain itf1 where
    f: "ULG_header U (new_DataIterator (c0 @ c) False) = Inr (itf1, lg)"
    "future itf1 [] = future itp1 c" "it_wf itp1" "it_partialData itp1" "it_wf itf1"
    "\<not> it_partialData itf1" "it_data itp1 = it_data (new_DataIterator c0 True)"
    by (rule ULG_header_pieces)
  have d: "it_data itp1 = c0" using f(7) by (simp add: new_DataIterator_def)
  have pos: "0 < maxStates ULG_storage" by (simp add: ULG_storage_def)
  note fp = first_pass(1)[OF decoder_ok_ULG[of U] pos f(3,4,5,6,2) d, where lg = lg and incr = incr]
    first_pass(2)[OF decoder_ok_ULG[of U] pos f(3,4,5,6,2) d, where lg = lg]
  show thesis
    using R[OF f(1)] fp
    by (simp add: ULG_parse_first assms f(1) parseULGBody_def ULG_decoder_def)
qed

lemma Replay_first_call:
  assumes "Replay_header U (new_DataIterator c0 True) = Inr (itp1, lg)"
  obtains itf1 where "Replay_header U (new_DataIterator (c0 @ c) False) = Inr (itf1, lg)"
    and "pinv (Replay_decoder U J) \<lparr>ps_log = lg, ps_storage = Replay_storage lg\<rparr> (todo itf1) c c0 incr
           (snd (Replay_parse U J new_parser c0 True incr))"
    and "pfin (Replay_decoder U J) \<lparr>ps_log = lg, ps_storage = Replay_storage lg\<rparr> (todo itf1)
           (snd (Replay_parse U J new_parser (c0 @ c) False incr'))"
proof -
  note R = that
  have w: "it_wf (new_DataIterator c0 True)" "it_partialData (new_DataIterator c0 True)"
    "it_wf (new_DataIterator (c0 @ c) False)" "\<not> it_partialData (new_DataIterator (c0 @ c) False)"
    by (simp_all add: new_DataIterator_def it_wf_def)
  from w ahead_new[of c0 c] assms obtain itf1 where
    f: "Replay_header U (new_DataIterator (c0 @ c) False) = Inr (itf1, lg)"
    "future itf1 [] = future itp1 c" "it_wf itp1" "it_partialData itp1" "it_wf itf1"
    "\<not> it_partialData itf1" "it_data itp1 = it_data (new_DataIterator c0 True)"
    by (rule Replay_header_pieces)
  have d: "it_data itp1 = c0" using f(7) by (simp add: new_DataIterator_def)
  have pos: "0 < maxStates (Replay_storage lg)" by (simp add: Replay_storage_def)
  note fp = first_pass(1)[OF decoder_ok_Replay[of U J] pos f(3,4,5,6,2) d, where lg = lg and incr = incr]
    first_pass(2)[OF decoder_ok_Replay[of U J] pos f(3,4,5,6,2) d, where lg = lg]
  show thesis
    using R[OF f(1)] fp
    by (simp add: Replay_parse_first assms f(1) parseReplayBody_def Replay_decoder_def)
qed

section \<open>A text decoded in one piece and in several\<close>

lemma final_states_pfin:
  assumes ok: "decoder_ok hs" and fin: "pfin hs st0 L P"
  shows "final_states (continue_pass hs) P
           = Some (states (ps_log (finish (run_lines (hs (ps_log st0)) st0 L))))"
proof -
  from run_queue_pfin[OF ok fin] obtain PF where r: "run_queue (continue_pass hs) P = Some PF"
    and f: "pfin hs st0 L PF" and ns: "\<not> lp_scheduled PF" by blast
  from f ns obtain lg sto where l: "lp_log PF = Some lg"
    and c: "core \<lparr>ps_log = lg, ps_storage = sto\<rparr> = core (finish (run_lines (hs (ps_log st0)) st0 L))"
    unfolding pfin_def by auto
  from core_states[OF c] show ?thesis by (simp add: final_states_def r l)
qed

lemma chunked_equal:
  assumes ok: "decoder_ok hs" and pc: "parse_continues hs msg parse"
    and inv: "pinv hs st0 L (concat (map fst cs) @ final) c0 incr (snd (parse new_parser c0 True incr))"
    and fin: "pfin hs st0 L P"
  shows "final_states (continue_pass hs)
           (feed parse (continue_pass hs) incr [] new_parser ((c0, n0) # cs) final)
         = Some (states (ps_log (finish (run_lines (hs (ps_log st0)) st0 L))))"
    and "final_states (continue_pass hs) P
         = Some (states (ps_log (finish (run_lines (hs (ps_log st0)) st0 L))))"
proof -
  from feed_pfin[OF ok pc ticks_pinv[OF ok inv, of n0]]
  have "pfin hs st0 L (feed parse (continue_pass hs) incr [] new_parser ((c0, n0) # cs) final)"
    by (cases incr) simp_all
  from final_states_pfin[OF ok this]
  show "final_states (continue_pass hs)
           (feed parse (continue_pass hs) incr [] new_parser ((c0, n0) # cs) final)
         = Some (states (ps_log (finish (run_lines (hs (ps_log st0)) st0 L))))" .
  from final_states_pfin[OF ok fin]
  show "final_states (continue_pass hs) P
         = Some (states (ps_log (finish (run_lines (hs (ps_log st0)) st0 L))))" .
qed

lemma ULG_first_header:
  assumes "fst (ULG_parse U new_parser c0 True incr) = Inr b"
  obtains itp1 lg where "ULG_header U (new_DataIterator c0 True) = Inr (itp1, lg)"
  using assms by (cases "ULG_header U (new_DataIterator c0 True)") (auto simp: ULG_parse_first)

lemma Replay_first_header:
  assumes "fst (Replay_parse U J new_parser c0 True incr) = Inr b"
  obtains itp1 lg where "Replay_header U (new_DataIterator c0 True) = Inr (itp1, lg)"
  using assms by (cases "Replay_header U (new_DataIterator c0 True)") (auto simp: Replay_parse_first)


lemmas queue_defs = final_states_def continue_pass_def ULG_decoder_def Replay_decoder_def
  run_queue.simps feed.simps

lemma example_ULG_first_piece:
  "fst (ULG_parse example_util new_parser (''ULG5'' @ [CHR 0x0A]) True True) = Inr False"
  by (simp add: run_defs)

lemma example_Replay_first_piece:
  "fst (Replay_parse example_util no_json new_parser (''RPL 3D 0'' @ [CHR 0x0A]) True False) = Inr False"
  by (simp add: run_defs split_sp.simps)

lemma example_ULG_whole:
  "map_option (map ws_time) (final_states (continue_pass (ULG_decoder example_util))
      (snd (ULG_parse example_util new_parser
         (''ULG5'' @ [CHR 0x0A] @ ''(show 1 ((l 1) 0 0x1 1 2 0 0 0))'' @ [CHR 0x0A]) False False)))
   = Some [Fin 0]"
  by (simp add: run_defs queue_defs)

lemma example_Replay_whole:
  "map_option (map ws_time) (final_states (continue_pass (Replay_decoder example_util no_json))
      (snd (Replay_parse example_util no_json new_parser
         (''RPL 3D 0'' @ [CHR 0x0A] @ ''S 0 PlayOn 0 0'' @ [CHR 0x0A]
            @ ''l 5 1000 2000 500 1000 0 0 0'' @ [CHR 0x0A]) False False)))
   = Some [Fin 0]"
  by (simp add: run_defs queue_defs)



section \<open>The clock of a decoder\<close>

named_theorems clk \<open>what leaves the clock alone\<close>

lemma clock_rec [clk]:
  "clock \<lparr>ps_log = lg, ps_storage = sto\<rparr> = (map ws_time (states lg), map_option pws_time (partialState sto))"
  by (simp add: clock_def)

lemma clock_log [clk]:
  "states lg = states (ps_log st) \<Longrightarrow> clock (st\<lparr>ps_log := lg\<rparr>) = clock st"
  by (simp add: clock_def)

lemma clock_storage [clk]:
  "map_option pws_time (partialState sto) = map_option pws_time (partialState (ps_storage st))
     \<Longrightarrow> clock (st\<lparr>ps_storage := sto\<rparr>) = clock st"
  by (simp add: clock_def)

lemma clock_upd_partial [clk]:
  "(\<And>p. pws_time (f p) = pws_time p) \<Longrightarrow> clock (upd_partial f st) = clock st"
  by (simp add: clock_def upd_partial_def split: option.splits)

lemma pws_time_kept [simp]:
  "pws_time (setGameTime g p) = pws_time p"
  "pws_time (setPlaymode pm p) = pws_time p"
  "pws_time (setScore gl gr a b c d p) = pws_time p"
  "pws_time (ULG_parseBallState node p) = pws_time p"
  by (simp_all add: setGameTime_def setPlaymode_def setScore_def ULG_parseBallState_def Let_def)

lemma pending_set_timeStep [simp]:
  "map_option pws_time (partialState (set_timeStep x sto)) = map_option pws_time (partialState sto)"
  by (simp add: set_timeStep_def split: option.splits)

lemma states_updateFrequency [simp]: "states (snd (updateFrequency U lg)) = states lg"
  by (simp add: updateFrequency_def split: sum.splits option.splits)

lemma clock_set_side [clk]: "clock (set_side b t il arr st) = clock st"
  by (simp add: set_side_def clock_def upd_partial_def split: option.splits)

lemma times_ok_clock: "clock st' = clock st \<Longrightarrow> times_ok st' = times_ok st"
  by (simp add: times_ok_def)

lemma js_lt_Fin_mono: "js_lt a (Fin t) \<Longrightarrow> t \<le> t' \<Longrightarrow> js_lt a (Fin t')"
  by (cases a) simp_all

lemma round3_later:
  assumes "1 / 1000 \<le> s"
  shows "\<exists>t'. round3 (js_add (Fin t) (Fin s)) = Fin t' \<and> t < t'"
proof -
  let ?y = "(t + s) * 1000"
  have r: "round3 (js_add (Fin t) (Fin s)) = Fin (of_int \<lfloor>?y + 1 / 2\<rfloor> / 1000)"
    by (simp add: round3_def)
  have "?y + 1 / 2 - 1 < of_int \<lfloor>?y + 1 / 2\<rfloor>" by linarith
  moreover have "t * 1000 + 1 \<le> ?y" using assms by (simp add: algebra_simps)
  ultimately have "t * 1000 < of_int \<lfloor>?y + 1 / 2\<rfloor>" by linarith
  then have "t < of_int \<lfloor>?y + 1 / 2\<rfloor> / 1000" by (simp add: field_simps)
  with r show ?thesis by blast
qed

lemma times_ok_appended:
  assumes t: "times_ok st" and s: "step_ok st" and Some: "partialState (ps_storage st) = Some p"
    and True: "length (leftAgentStates p) + length (rightAgentStates p) > 0"
  shows "times_ok (snd (append_partial st))"
proof -
    let ?ts = "map ws_time (states (ps_log st))"
    from t Some have tk: "sorted_wrt js_lt ?ts"
      "(case pws_time p of Fin x \<Rightarrow> True | _ \<Rightarrow> False)"
      "\<forall>s\<in>set ?ts. js_lt s (pws_time p)"
      by (simp_all add: times_ok_def clock_def)
    from tk(2) obtain x where x: "pws_time p = Fin x" by (cases "pws_time p") simp_all
    from s Some have "good_step (timeStep p)" by (simp add: step_ok_def)
    then obtain d where d: "timeStep p = Fin d" and dg: "1 / 1000 \<le> d"
      by (cases "timeStep p") (simp_all add: good_step_def)
    from round3_later[OF dg, of x] obtain x' where
      x': "round3 (js_add (Fin x) (Fin d)) = Fin x'" and lt: "x < x'" by blast
    have ap: "append_partial st = (True, \<lparr>ps_log = (ps_log st)\<lparr>states := states (ps_log st) @
          [\<lparr>ws_time = pws_time p, ws_gameTime = gameTime p, ws_gameState = gameState p,
            ws_score = score p, ballStateArr = ballState p,
            leftAgentStateArrs = leftAgentStates p, rightAgentStateArrs = rightAgentStates p\<rparr>]\<rparr>,
        ps_storage = (ps_storage st)\<lparr>partialState := Some (p\<lparr>pws_time := round3 (js_add (pws_time p) (timeStep p)),
           leftAgentStates := [], rightAgentStates := []\<rparr>)\<rparr>\<rparr>)"
      using Some True by (simp add: append_partial_def appendTo_def)
    have c: "clock (snd (append_partial st)) = (?ts @ [Fin x], Some (Fin x'))"
      unfolding ap using x' by (simp add: clock_def x d)
    have b: "\<forall>s\<in>set ?ts. js_lt s (Fin x')"
    proof
      fix s assume "s \<in> set ?ts"
      with tk(3) have "js_lt s (Fin x)" unfolding x by blast
      then show "js_lt s (Fin x')" using lt js_lt_Fin_mono[of s x x'] by simp
    qed
    have b0: "\<forall>s\<in>set ?ts. js_lt s (Fin x)" using tk(3) by (simp add: x)
    have "sorted_wrt js_lt (?ts @ [Fin x])"
      using tk(1) b0 by (simp add: sorted_wrt_append)
    moreover have "\<forall>s\<in>set (?ts @ [Fin x]). js_lt s (Fin x')"
      using b lt by simp
    ultimately show ?thesis
      unfolding times_ok_def c by simp
qed

lemma times_ok_append_partial:
  assumes t: "times_ok st" and s: "step_ok st"
  shows "times_ok (snd (append_partial st))"
proof (cases "partialState (ps_storage st)")
  case None
  then show ?thesis using t by (simp add: append_partial_def)
next
  case (Some p)
  show ?thesis
  proof (cases "length (leftAgentStates p) + length (rightAgentStates p) > 0")
    case False
    with Some have "snd (append_partial st) = st"
      by (simp add: append_partial_def appendTo_def)
    with t show ?thesis by simp
  next
    case True
    from times_ok_appended[OF t s Some True] show ?thesis .
  qed
qed

lemma times_ok_upd_partial [clk]:
  "(\<And>p. pws_time (f p) = pws_time p) \<Longrightarrow> times_ok (upd_partial f st) = times_ok st"
  by (rule times_ok_clock) (simp add: clk)

lemma times_ok_log [clk]:
  "states lg = states (ps_log st) \<Longrightarrow> times_ok (st\<lparr>ps_log := lg\<rparr>) = times_ok st"
  by (rule times_ok_clock) (simp add: clk)

lemma step_ok_log [clk]:
  "frequency lg = frequency (ps_log st) \<Longrightarrow> step_ok (st\<lparr>ps_log := lg\<rparr>) = step_ok st"
  by (simp add: step_ok_def split: option.splits)

lemma states_updateFrequency_pair: "updateFrequency U lg = (e, lg2) \<Longrightarrow> states lg2 = states lg"
  using states_updateFrequency[of U lg] by simp

lemma time_ULG_parseServerParamLine:
  "clock (snd (ULG_parseServerParamLine U l st)) = clock st"
  by (auto simp: ULG_parseServerParamLine_def Let_def clock_def
        split: sum.splits option.splits prod.splits dest: states_updateFrequency_pair)

lemma time_ULG_parsePlayerParamLine:
  "clock (snd (ULG_parsePlayerParamLine l st)) = clock st"
  by (simp add: ULG_parsePlayerParamLine_def Let_def clock_def split: sum.splits)

lemma time_ULG_parsePlayerTypeLine:
  "clock (snd (ULG_parsePlayerTypeLine U l st)) = clock st"
  by (simp add: ULG_parsePlayerTypeLine_def Let_def clock_def
        split: sum.splits option.splits jsval.splits)

lemma time_ULG_parsePlaymodeLine:
  assumes "times_ok st" and "step_ok st"
  shows "times_ok (snd (ULG_parsePlaymodeLine l st))"
  using assms times_ok_append_partial[OF assms]
  by (simp add: ULG_parsePlaymodeLine_def Let_def clk split: sum.splits)

lemma time_ULG_parseTeamLine:
  assumes "times_ok st" and "step_ok st"
  shows "times_ok (snd (ULG_parseTeamLine l st))"
proof -
  have "times_ok (snd (append_partial (st\<lparr>ps_log := lg\<rparr>)))"
    if "states lg = states (ps_log st)" "frequency lg = frequency (ps_log st)" for lg
    by (rule times_ok_append_partial) (simp_all add: clk that assms)
  then show ?thesis
    using assms by (simp add: ULG_parseTeamLine_def Let_def clk split: sum.splits)
qed

lemma clock_show_child_step: "clock (show_child_step U st c) = clock st"
  by (simp add: show_child_step_def Let_def clk split: option.splits prod.splits)

lemma clock_show_children: "clock (foldl (show_child_step U) st cs) = clock st"
  by (induction cs arbitrary: st) (simp_all add: clock_show_child_step)

lemma time_ULG_parseShowLine:
  assumes "times_ok st" and "step_ok st"
  shows "times_ok (snd (ULG_parseShowLine U l st))"
  using assms times_ok_append_partial[OF assms]
  by (simp add: ULG_parseShowLine_def Let_def clk times_ok_clock[OF clock_show_children]
        split: sum.splits)

lemma keeps_time_ULG: "keeps_time (ULG_line U)"
  unfolding keeps_time_def
proof (intro allI impI)
  fix l st assume a: "times_ok st" "step_ok st"
  obtain e s' where r: "ULG_parseShowLine U l st = (e, s')" by (cases "ULG_parseShowLine U l st")
  have s: "times_ok s'" using time_ULG_parseShowLine[OF a, of U l] r by simp
  show "times_ok (snd (ULG_line U l st))"
    using a s time_ULG_parsePlaymodeLine[OF a, of l] time_ULG_parseTeamLine[OF a, of l]
    by (simp add: ULG_line_def r
          times_ok_clock[OF time_ULG_parseServerParamLine]
          times_ok_clock[OF time_ULG_parsePlayerParamLine]
          times_ok_clock[OF time_ULG_parsePlayerTypeLine])
qed

lemma time_parseEnvironmentParams:
  "clock (snd (parseEnvironmentParams U J l st)) = clock st"
  by (auto simp: parseEnvironmentParams_def Let_def clock_def
        split: sum.splits option.splits prod.splits dest: states_updateFrequency_pair)

lemma time_parsePlayerParams: "clock (snd (parsePlayerParams J l st)) = clock st"
  by (simp add: parsePlayerParams_def clock_def split: option.splits)

lemma time_parsePlayerTypeParams: "clock (snd (parsePlayerTypeParams J l st)) = clock st"
  by (simp add: parsePlayerTypeParams_def Let_def clock_def split: option.splits)

lemma time_Replay_parseTeamLine: "clock (snd (Replay_parseTeamLine l st)) = clock st"
  by (simp add: Replay_parseTeamLine_def Let_def clock_def)

lemma time_parseStateLine:
  assumes "times_ok st" and "step_ok st"
  shows "times_ok (snd (parseStateLine l st))"
proof (cases "partialState (ps_storage st)")
  case (Some p)
  with assms times_ok_append_partial[OF assms] show ?thesis
    by (simp add: parseStateLine_def Let_def clk)
next
  case None
  let ?st1 = "st\<lparr>ps_storage := (ps_storage st)\<lparr>partialState :=
      Some (new_PartialWorldState (Fin 0) (js_div (Fin 1) (frequency (ps_log st))) (Fin 0))\<rparr>\<rparr>"
  from assms(1) None have e: "states (ps_log st) = []"
    by (simp add: times_ok_def clock_def)
  have "times_ok ?st1"
    using e by (simp add: times_ok_def clock_def new_PartialWorldState_def)
  with None assms(1) show ?thesis
    by (simp add: parseStateLine_def Let_def clk)
qed

lemma pending_ball:
  "map_option pws_time (parseBallState_2D l x) = map_option pws_time x"
  "map_option pws_time (parseBallState_V0_3D l x) = map_option pws_time x"
  "map_option pws_time (parseBallState_V1_3D l x) = map_option pws_time x"
  by (simp_all add: parseBallState_2D_def parseBallState_V0_3D_def parseBallState_V1_3D_def Let_def
        split: option.splits)

lemma pending_select_ball [simp]:
  "map_option pws_time (select_parseBallFcn lg l x) = map_option pws_time x"
  by (simp add: select_parseBallFcn_def pending_ball)

lemma time_parseAgentState_V0_2D: "clock (snd (parseAgentState_V0_2D U l st b)) = clock st"
  by (simp add: parseAgentState_V0_2D_def Let_def clk split: option.splits)

lemma time_parseAgentState_V0_3D: "clock (snd (parseAgentState_V0_3D l st b)) = clock st"
  by (simp add: parseAgentState_V0_3D_def Let_def clk split: option.splits)

lemma time_parseAgentState_V1: "clock (snd (parseAgentState_V1 U l st b)) = clock st"
  by (simp add: parseAgentState_V1_def Let_def clk split: option.splits sum.splits)

lemma time_select_agent [simp]: "clock (snd (select_parseAgentFcn U lg l st b)) = clock st"
  by (simp add: select_parseAgentFcn_def time_parseAgentState_V0_2D time_parseAgentState_V0_3D
        time_parseAgentState_V1)

lemma keeps_time_Replay: "keeps_time (Replay_decoder U J lg)"
  unfolding keeps_time_def
proof (intro allI impI)
  fix l st assume a: "times_ok st" "step_ok st"
  show "times_ok (snd (Replay_decoder U J lg l st))"
    using a time_parseStateLine[OF a, of l]
    by (simp add: Replay_decoder_def Replay_line_def Let_def clk
          times_ok_clock[OF time_parseEnvironmentParams]
          times_ok_clock[OF time_parsePlayerParams]
          times_ok_clock[OF time_parsePlayerTypeParams]
          times_ok_clock[OF time_Replay_parseTeamLine]
          times_ok_clock[OF time_select_agent]
          times_ok_clock[OF clock_storage])
qed

section \<open>The times of the states of a log\<close>

lemma times_run_lines:
  assumes k: "keeps_time h"
  shows "times_ok st \<Longrightarrow> steps_ok h st ls
           \<Longrightarrow> times_ok (run_lines h st ls) \<and> step_ok (run_lines h st ls)"
proof (induction ls arbitrary: st)
  case Nil
  then show ?case by (simp add: run_lines_def)
next
  case (Cons l ls)
  from Cons.prems have s: "step_ok st" and r: "steps_ok h (snd (h l st)) ls" by simp_all
  from k Cons.prems(1) s have "times_ok (snd (h l st))" by (simp add: keeps_time_def)
  from Cons.IH[OF this r] show ?case by (simp add: run_lines_def)
qed

lemma times_finish:
  assumes "times_ok st" and "step_ok st"
  shows "times_ok (finish st)"
  using times_ok_append_partial[OF assms] by (simp add: finish_def Let_def clk)

lemma times_ok_sorted: "times_ok st \<Longrightarrow> sorted_wrt js_lt (map ws_time (states (ps_log st)))"
  by (simp add: times_ok_def clock_def)

lemma decoded_increasing:
  assumes "keeps_time h" and "times_ok st0" and "steps_ok h st0 L"
  shows "increasing (Some (states (ps_log (finish (run_lines h st0 L)))))"
  using times_ok_sorted[OF times_finish] times_run_lines[OF assms]
  by (simp add: increasing_def)

lemma states_new_SimulationLog [simp]: "states (new_SimulationLog U ty ver) = []"
  by (simp add: new_SimulationLog_def Let_def)

lemma states_add_default_agents [simp]: "states (add_default_agents lg) = states lg"
proof -
  have "states (foldl (\<lambda>lg i. lg\<lparr>leftTeam := snd (addAgent (leftTeam lg) (num (int i)) (playerTypes lg (Fin 0))),
                      rightTeam := snd (addAgent (rightTeam lg) (num (int i)) (playerTypes lg (Fin 0)))\<rparr>)
       lg xs) = states lg" for xs :: "nat list"
    by (induction xs arbitrary: lg) simp_all
  then show ?thesis by (simp add: add_default_agents_def)
qed

lemma states_field_params [simp]: "states (field_params c lg) = states lg"
  by (simp add: field_params_def Let_def)

lemma ULG_header_states: "ULG_header U it0 = Inr (it1, lg) \<Longrightarrow> states lg = []"
  by (auto simp: ULG_header_def new_SServerLog_def split: prod.splits if_splits)

lemma Replay_header_states: "Replay_header U it0 = Inr (it1, lg) \<Longrightarrow> states lg = []"
  by (auto simp: Replay_header_def new_Replay_def Let_def split: prod.splits option.splits if_splits)

lemma it_next_partialData: "it_partialData (snd (it_next it)) = it_partialData it"
  by (simp add: it_next_def Let_def split: prod.splits option.splits)

lemma it_next_partialData': "it_next it = (x, it') \<Longrightarrow> it_partialData it' = it_partialData it"
  using it_next_partialData[of it] by simp

lemma ULG_header_cursor:
  assumes "it_wf it0" and "ULG_header U it0 = Inr (it1, lg)"
  shows "it_wf it1" and "it_partialData it1 = it_partialData it0"
  using assms
  by (auto simp: ULG_header_def it_wf_it_next it_wf_it_next' it_next_partialData
        split: prod.splits if_splits dest: it_next_partialData' it_wf_it_next')

lemma Replay_header_partialData:
  assumes "Replay_header U it0 = Inr (it1, lg)"
  shows "it_partialData it1 = it_partialData it0"
  using assms
  by (auto simp: Replay_header_def Let_def it_next_partialData
        split: prod.splits option.splits if_splits dest!: it_next_partialData')

lemma one_shot_pfin:
  assumes ok: "decoder_ok hs" and pos: "0 < maxStates sto"
    and wf: "it_wf itf" and pf: "\<not> it_partialData itf"
  shows "pfin hs \<lparr>ps_log = lg, ps_storage = sto\<rparr> (todo itf)
           (after_body new_parser (parse_body (hs lg) itf \<lparr>ps_log = lg, ps_storage = sto\<rparr>))"
proof -
  let ?st0 = "\<lparr>ps_log = lg, ps_storage = sto\<rparr>"
  have h: "hs lg = hs (ps_log ?st0)" by simp
  have co: "core ?st0 = core (run_lines (hs lg) ?st0 [])" by (simp add: run_lines_def)
  have Lf: "todo itf = [] @ future itf []" using pf by (simp add: future_complete)
  have ns: "\<not> lp_scheduled new_parser" by (simp add: new_parser_def)
  from pass_step[OF ok h _ wf _ _ co Lf _ ns, where incr = False and acc = "it_data itf"] pf pos
  show ?thesis by simp
qed

lemma times_ok_ULG_start: "states lg = [] \<Longrightarrow> times_ok \<lparr>ps_log = lg, ps_storage = ULG_storage\<rparr>"
  by (simp add: times_ok_def clock_def ULG_storage_def new_PartialWorldState_def)

lemma times_ok_Replay_start:
  "states lg = [] \<Longrightarrow> times_ok \<lparr>ps_log = lg, ps_storage = Replay_storage lg\<rparr>"
  by (simp add: times_ok_def clock_def Replay_storage_def new_LogParserStorage_def)


lemmas text_defs = ULG_header_def ULG_storage_def Replay_storage_def todo_def lines_of_def it_rest_def
  all_lines.simps scan_def step_ok_def good_step_def good_frequency_def

lemma example_ULG_steps:
  "\<exists>it1 lg. ULG_header example_util (new_DataIterator
       (''ULG5'' @ [CHR 0x0A] @ ''(show 1 ((l 1) 0 0x1 1 2 0 0 0))'' @ [CHR 0x0A]
          @ ''(show 2 ((l 1) 0 0x1 1 2 0 0 0))'' @ [CHR 0x0A]) False) = Inr (it1, lg)
     \<and> steps_ok (ULG_line example_util) \<lparr>ps_log = lg, ps_storage = ULG_storage\<rparr> (todo it1)"
  by (simp add: run_defs text_defs)

lemma example_ULG_times:
  "map_option (map ws_time) (final_states (continue_pass (ULG_decoder example_util))
      (snd (ULG_parse example_util new_parser
         (''ULG5'' @ [CHR 0x0A] @ ''(show 1 ((l 1) 0 0x1 1 2 0 0 0))'' @ [CHR 0x0A]
            @ ''(show 2 ((l 1) 0 0x1 1 2 0 0 0))'' @ [CHR 0x0A]) False False)))
   = Some [Fin 0, Fin (1 / 10)]"
  by (simp add: run_defs queue_defs)

lemma example_Replay_steps:
  "\<exists>it1 lg. Replay_header example_util (new_DataIterator
       (''RPL 3D 0'' @ [CHR 0x0A] @ ''S 0 PlayOn 0 0'' @ [CHR 0x0A]
          @ ''l 5 1000 2000 500 1000 0 0 0'' @ [CHR 0x0A] @ ''S 2 PlayOn 0 0'' @ [CHR 0x0A]
          @ ''l 5 1000 2000 500 1000 0 0 0'' @ [CHR 0x0A]) False) = Inr (it1, lg)
     \<and> steps_ok (Replay_decoder example_util no_json lg)
          \<lparr>ps_log = lg, ps_storage = Replay_storage lg\<rparr> (todo it1)"
  by (simp add: run_defs text_defs Replay_decoder_def)

lemma example_Replay_times:
  "map_option (map ws_time) (final_states (continue_pass (Replay_decoder example_util no_json))
      (snd (Replay_parse example_util no_json new_parser
         (''RPL 3D 0'' @ [CHR 0x0A] @ ''S 0 PlayOn 0 0'' @ [CHR 0x0A]
            @ ''l 5 1000 2000 500 1000 0 0 0'' @ [CHR 0x0A] @ ''S 2 PlayOn 0 0'' @ [CHR 0x0A]
            @ ''l 5 1000 2000 500 1000 0 0 0'' @ [CHR 0x0A]) False False)))
   = Some [Fin 0, Fin (1 / 5)]"
  by (simp add: run_defs queue_defs)



end
